theory Spec2Isabelle
  imports Main "HOL-Library.Word"
begin

unbundle bit_operations_syntax

section \<open>Data model of the worker side (cluster_manager_impl.cc)\<close>

text \<open>
  Member names of the source end in an underscore (\<^verbatim>\<open>pools_\<close>); the model drops it.

  Errors. Every \<^verbatim>\<open>throw EnvoyException(...)\<close> of the source is one constructor, carrying the
  string that the source formats into the message. A failed \<^verbatim>\<open>ASSERT\<close> and the dereference
  of a null pointer are error values as well.
\<close>

datatype error =
    UnknownClusterType string
  | SdsWithoutSdsConfig
  | DuplicateCluster string
  | UnknownHealthCheckType string
  | LocalClusterNotDefined string
  | UnknownCluster string
  | AssertionFailed
  | NullDereference

datatype ResourcePriority = Default | High

fun enumToInt :: "ResourcePriority \<Rightarrow> nat" where
  "enumToInt Default = 0"
| "enumToInt High = 1"

datatype LoadBalancerType = LeastRequest | Random | RoundRobin

text \<open>
  \<^verbatim>\<open>cluster->info()\<close>: the immutable part of a cluster, its name and its feature bits.
\<close>

record ClusterInfo =
  info_name :: string
  info_features :: "64 word"

text \<open>
  \<^verbatim>\<open>ClusterInfo::Features::HTTP2\<close> is declared in a header outside the given sources; the
  results below hold for the bit that it names, whatever its position.
\<close>

definition Features_HTTP2 :: "64 word" where
  "Features_HTTP2 = 1"

text \<open>
  A host is an object with an identity (\<^verbatim>\<open>HostPtr\<close> is a shared pointer and the maps are
  keyed by the pointer). \<open>host_id\<close> is that identity; \<open>host_cluster\<close> is the back link
  \<^verbatim>\<open>host->cluster()\<close>.
\<close>

record Host =
  host_id :: nat
  host_address :: string
  host_cluster :: ClusterInfo

type_synonym HostPtr = Host

datatype Protocol = Http1 | Http2

text \<open>
  A connection pool as the cluster manager sees it: which implementation was allocated,
  the constructor arguments, the address that \<^verbatim>\<open>new\<close> returned, and the callbacks handed to
  \<^verbatim>\<open>addDrainedCallback\<close>. The only callback the source registers is the closure of
  \<^verbatim>\<open>drainConnPools\<close>, which captures \<^verbatim>\<open>this\<close> and \<^verbatim>\<open>old_host\<close>; it is represented by the
  captured host.
\<close>

record ConnPool =
  pool_addr :: nat
  pool_protocol :: Protocol
  pool_host :: HostPtr
  pool_priority :: ResourcePriority
  drained_cbs :: "HostPtr list"

record ConnPoolsContainer =
  pools :: "ConnPool option list"
  drains_remaining :: nat

text \<open>
  A default constructed container, as \<^verbatim>\<open>operator[]\<close> of the map inserts it: one empty slot
  per priority and no drain pending.
\<close>

definition NumResourcePriorities :: nat where
  "NumResourcePriorities = 2"

definition new_ConnPoolsContainer :: ConnPoolsContainer where
  "new_ConnPoolsContainer =
     \<lparr>pools = replicate NumResourcePriorities None, drains_remaining = 0\<rparr>"

text \<open>
  The counters \<^verbatim>\<open>drains_remaining_\<close> and \<^verbatim>\<open>pending_cluster_init_\<close> are unsigned 32 bit
  integers. They count the pools of one container and the clusters of one configuration,
  so counting up stays far below \<open>2 ^ 32\<close> and they are natural numbers here. The width
  shows where a counter that is zero is decremented: it wraps around. Each decrement of the
  source is guarded by an \<^verbatim>\<open>ASSERT\<close>, which aborts in a debug build and is compiled out when
  \<^verbatim>\<open>NDEBUG\<close> is defined; the functions with such a decrement take the build as their first
  argument.
\<close>

definition u32_dec :: "nat \<Rightarrow> nat" where
  "u32_dec n = (if n = 0 then 2 ^ 32 - 1 else n - 1)"

datatype MemberUpdateCb = PurgeConnPools

record HostSet =
  hs_hosts :: "HostPtr list"
  hs_healthy_hosts :: "HostPtr list"
  hs_hosts_per_zone :: "HostPtr list list"
  hs_healthy_hosts_per_zone :: "HostPtr list list"
  hs_callbacks :: "MemberUpdateCb list"

definition new_HostSet :: HostSet where
  "new_HostSet = \<lparr>hs_hosts = [], hs_healthy_hosts = [], hs_hosts_per_zone = [],
     hs_healthy_hosts_per_zone = [], hs_callbacks = []\<rparr>"

text \<open>
  A load balancer as \<^verbatim>\<open>ClusterEntry\<close> constructs it: the policy, the local host set it was
  given (a pointer to the \<open>host_set\<close> of another entry of the same worker, represented by
  that entry's key, or null), and the state a policy keeps between calls.
\<close>

record LoadBalancer =
  lb_type :: LoadBalancerType
  lb_local_host_set :: "string option"
  lb_state :: nat

datatype AsyncClient = AsyncClientImpl string

record ClusterEntry =
  primary_cluster :: ClusterInfo
  host_set :: HostSet
  lb :: LoadBalancer
  http_async_client :: AsyncClient

text \<open>
  The per worker object. \<open>deferred_delete\<close> is what was handed to
  \<^verbatim>\<open>dispatcher_.deferredDelete\<close>, in order; \<open>pools_allocated\<close> counts the pools allocated so
  far and gives each new pool its address; \<open>upstream_cx_none_healthy\<close> holds, per cluster
  name, the counter reached through \<^verbatim>\<open>primary_cluster_->info()->stats()\<close>;
  \<open>entries_created\<close> lists the keys of the entries in the order in which the constructor
  ran \<^verbatim>\<open>new ClusterEntry\<close> for them.
\<close>

record ThreadLocalClusterManagerImpl =
  thread_local_clusters :: "string \<rightharpoonup> ClusterEntry"
  host_http_conn_pool_map :: "HostPtr \<rightharpoonup> ConnPoolsContainer"
  deferred_delete :: "ConnPool option list"
  pools_allocated :: nat
  upstream_cx_none_healthy :: "string \<Rightarrow> nat"
  entries_created :: "string list"

text \<open>
  \<^verbatim>\<open>lb_->chooseHost()\<close> is implemented outside the given sources. It is a parameter of the
  model: a function of the balancer, the entry's host set and the local host set, returning
  the chosen host (or null) and the balancer's next state.
\<close>

type_synonym chooseHost = "LoadBalancer \<Rightarrow> HostSet \<Rightarrow> HostSet option \<Rightarrow> HostPtr option \<times> LoadBalancer"

text \<open>\<^verbatim>\<open>runtime_.snapshot().featureEnabled(key, default)\<close>: the outcome of the roll.\<close>

type_synonym featureEnabled = "string \<Rightarrow> nat \<Rightarrow> bool"

section \<open>Pool allocation and the hot path\<close>

definition allocateConnPool :: "featureEnabled \<Rightarrow> HostPtr \<Rightarrow> ResourcePriority \<Rightarrow> nat \<Rightarrow> ConnPool" where
  "allocateConnPool fe host priority addr =
     (if info_features (host_cluster host) AND Features_HTTP2 \<noteq> 0 \<and> fe ''upstream.use_http2'' 100
      then \<lparr>pool_addr = addr, pool_protocol = Http2, pool_host = host,
             pool_priority = priority, drained_cbs = []\<rparr>
      else \<lparr>pool_addr = addr, pool_protocol = Http1, pool_host = host,
             pool_priority = priority, drained_cbs = []\<rparr>)"

definition local_host_set_of :: "ThreadLocalClusterManagerImpl \<Rightarrow> LoadBalancer \<Rightarrow> HostSet option" where
  "local_host_set_of w b =
     (case lb_local_host_set b of
        None \<Rightarrow> None
      | Some n \<Rightarrow> map_option host_set (thread_local_clusters w n))"

text \<open>
  \<^verbatim>\<open>ClusterEntry::connPool\<close>, called on the entry stored under \<open>name\<close>. The result is the raw
  pointer the source returns: null or the pool in the slot.
\<close>

definition connPool ::
  "chooseHost \<Rightarrow> featureEnabled \<Rightarrow> string \<Rightarrow> ClusterEntry \<Rightarrow> ResourcePriority \<Rightarrow>
   ThreadLocalClusterManagerImpl \<Rightarrow> (error + ConnPool option) \<times> ThreadLocalClusterManagerImpl" where
  "connPool ch fe name entry priority w =
     (case ch (lb entry) (host_set entry) (local_host_set_of w (lb entry)) of
        (None, lb') \<Rightarrow>
          (Inr None,
           w\<lparr>thread_local_clusters := (thread_local_clusters w)(name \<mapsto> entry\<lparr>lb := lb'\<rparr>),
             upstream_cx_none_healthy := (upstream_cx_none_healthy w)
               (info_name (primary_cluster entry) :=
                  upstream_cx_none_healthy w (info_name (primary_cluster entry)) + 1)\<rparr>)
      | (Some host, lb') \<Rightarrow>
          (let w1 = w\<lparr>thread_local_clusters := (thread_local_clusters w)(name \<mapsto> entry\<lparr>lb := lb'\<rparr>)\<rparr>;
               container = (case host_http_conn_pool_map w1 host of
                              None \<Rightarrow> new_ConnPoolsContainer
                            | Some c \<Rightarrow> c);
               w2 = w1\<lparr>host_http_conn_pool_map := (host_http_conn_pool_map w1)(host \<mapsto> container)\<rparr>
           in if \<not> enumToInt priority < length (pools container) then (Inl AssertionFailed, w2)
              else (case pools container ! enumToInt priority of
                      Some p \<Rightarrow> (Inr (Some p), w2)
                    | None \<Rightarrow>
                        (let p = allocateConnPool fe host priority (pools_allocated w2);
                             container' = container\<lparr>pools := (pools container)[enumToInt priority := Some p]\<rparr>
                         in (Inr (Some p),
                             w2\<lparr>host_http_conn_pool_map := (host_http_conn_pool_map w2)(host \<mapsto> container'),
                                pools_allocated := pools_allocated w2 + 1\<rparr>)))))"

definition get :: "string \<Rightarrow> ThreadLocalClusterManagerImpl \<Rightarrow> ClusterInfo option" where
  "get cluster w =
     (case thread_local_clusters w cluster of
        Some entry \<Rightarrow> Some (primary_cluster entry)
      | None \<Rightarrow> None)"

definition httpConnPoolForCluster ::
  "chooseHost \<Rightarrow> featureEnabled \<Rightarrow> string \<Rightarrow> ResourcePriority \<Rightarrow>
   ThreadLocalClusterManagerImpl \<Rightarrow> (error + ConnPool option) \<times> ThreadLocalClusterManagerImpl" where
  "httpConnPoolForCluster ch fe cluster priority w =
     (case thread_local_clusters w cluster of
        None \<Rightarrow> (Inl (UnknownCluster cluster), w)
      | Some entry \<Rightarrow> connPool ch fe cluster entry priority w)"

text \<open>
  Modelled from the spec: \<^verbatim>\<open>Host::createConnection\<close> is outside the given sources. The spec
  says that the result is a (connection, host) pair; the connection is represented by its
  target.
\<close>

datatype ClientConnection = ConnectionTo HostPtr

type_synonym CreateConnectionData = "ClientConnection option \<times> HostPtr option"

definition createConnection :: "HostPtr \<Rightarrow> CreateConnectionData" where
  "createConnection host = (Some (ConnectionTo host), Some host)"

definition tcpConnForCluster ::
  "chooseHost \<Rightarrow> string \<Rightarrow> ThreadLocalClusterManagerImpl \<Rightarrow>
   (error + CreateConnectionData) \<times> ThreadLocalClusterManagerImpl" where
  "tcpConnForCluster ch cluster w =
     (case thread_local_clusters w cluster of
        None \<Rightarrow> (Inl (UnknownCluster cluster), w)
      | Some entry \<Rightarrow>
          (case ch (lb entry) (host_set entry) (local_host_set_of w (lb entry)) of
             (Some logical_host, lb') \<Rightarrow>
               (Inr (createConnection logical_host),
                w\<lparr>thread_local_clusters := (thread_local_clusters w)(cluster \<mapsto> entry\<lparr>lb := lb'\<rparr>)\<rparr>)
           | (None, lb') \<Rightarrow>
               (Inr (None, None),
                w\<lparr>thread_local_clusters := (thread_local_clusters w)(cluster \<mapsto> entry\<lparr>lb := lb'\<rparr>),
                  upstream_cx_none_healthy := (upstream_cx_none_healthy w)
                    (info_name (primary_cluster entry) :=
                       upstream_cx_none_healthy w (info_name (primary_cluster entry)) + 1)\<rparr>)))"

definition httpAsyncClientForCluster ::
  "string \<Rightarrow> ThreadLocalClusterManagerImpl \<Rightarrow> (error + AsyncClient) \<times> ThreadLocalClusterManagerImpl" where
  "httpAsyncClientForCluster cluster w =
     (case thread_local_clusters w cluster of
        Some entry \<Rightarrow> (Inr (http_async_client entry), w)
      | None \<Rightarrow> (Inl (UnknownCluster cluster), w))"

section \<open>Draining the pools of removed hosts\<close>

text \<open>
  Modelled from the spec: \<^verbatim>\<open>addDrainedCallback\<close> belongs to the connection pool, which is
  outside the given sources. The spec lists \<^verbatim>\<open>addDrainedCallback(cb)\<close> as the pool's contract
  and says that a drained callback is registered on a pool and runs when the pool reports
  drained: the pool keeps the callback.
\<close>

definition addDrainedCallback :: "HostPtr \<Rightarrow> ConnPool \<Rightarrow> ConnPool" where
  "addDrainedCallback cb pool = pool\<lparr>drained_cbs := drained_cbs pool @ [cb]\<rparr>"

text \<open>The first loop of \<^verbatim>\<open>drainConnPools\<close>: one increment per non-empty slot.\<close>

fun count_drains :: "ConnPool option list \<Rightarrow> nat \<Rightarrow> nat" where
  "count_drains [] d = d"
| "count_drains (None # ps) d = count_drains ps d"
| "count_drains (Some pool # ps) d = count_drains ps (d + 1)"

text \<open>The second loop: the closure over \<open>old_host\<close> is registered on each non-empty slot.\<close>

fun register_drains :: "HostPtr \<Rightarrow> ConnPool option list \<Rightarrow> ConnPool option list" where
  "register_drains old_host [] = []"
| "register_drains old_host (None # ps) = None # register_drains old_host ps"
| "register_drains old_host (Some pool # ps) =
     Some (addDrainedCallback old_host pool) # register_drains old_host ps"

definition drainConnPools :: "HostPtr \<Rightarrow> ConnPoolsContainer \<Rightarrow> ConnPoolsContainer" where
  "drainConnPools old_host container =
     \<lparr>pools = register_drains old_host (pools container),
      drains_remaining = count_drains (pools container) (drains_remaining container)\<rparr>"

text \<open>
  The closure registered by \<^verbatim>\<open>drainConnPools\<close>. \<^verbatim>\<open>host_http_conn_pool_map_[old_host]\<close> inserts
  a default container when the key is absent. With the assertion compiled out, a call that
  finds the counter at zero wraps it and leaves the container in the map.
\<close>

definition drainedCallback ::
  "bool \<Rightarrow> HostPtr \<Rightarrow> ThreadLocalClusterManagerImpl \<Rightarrow> error + ThreadLocalClusterManagerImpl" where
  "drainedCallback ndebug old_host w =
     (let container = (case host_http_conn_pool_map w old_host of
                         None \<Rightarrow> new_ConnPoolsContainer
                       | Some c \<Rightarrow> c)
      in if \<not> ndebug \<and> \<not> drains_remaining container > 0 then Inl AssertionFailed
         else (let container' = container\<lparr>drains_remaining := u32_dec (drains_remaining container)\<rparr>
               in if drains_remaining container' = 0
                  then Inr (w\<lparr>deferred_delete := deferred_delete w @ pools container',
                              host_http_conn_pool_map := (host_http_conn_pool_map w)(old_host := None)\<rparr>)
                  else Inr (w\<lparr>host_http_conn_pool_map :=
                                (host_http_conn_pool_map w)(old_host \<mapsto> container')\<rparr>)))"

text \<open>
  The member update callback that the constructor of \<^verbatim>\<open>ThreadLocalClusterManagerImpl\<close>
  registers on every host set.
\<close>

fun purgeConnPools :: "HostPtr list \<Rightarrow> ThreadLocalClusterManagerImpl \<Rightarrow> ThreadLocalClusterManagerImpl" where
  "purgeConnPools [] w = w"
| "purgeConnPools (old_host # hosts_removed) w =
     purgeConnPools hosts_removed
       (case host_http_conn_pool_map w old_host of
          None \<Rightarrow> w
        | Some container \<Rightarrow>
            w\<lparr>host_http_conn_pool_map :=
                (host_http_conn_pool_map w)(old_host \<mapsto> drainConnPools old_host container)\<rparr>)"

text \<open>
  The callbacks that the pools of one container hold, slot by slot, and a run of callbacks
  in order.
\<close>

fun registered_callbacks :: "ConnPool option list \<Rightarrow> HostPtr list" where
  "registered_callbacks [] = []"
| "registered_callbacks (None # ps) = registered_callbacks ps"
| "registered_callbacks (Some pool # ps) = drained_cbs pool @ registered_callbacks ps"

fun runDrainedCallbacks ::
  "bool \<Rightarrow> HostPtr list \<Rightarrow> ThreadLocalClusterManagerImpl \<Rightarrow>
   error + ThreadLocalClusterManagerImpl" where
  "runDrainedCallbacks ndebug [] w = Inr w"
| "runDrainedCallbacks ndebug (cb # cbs) w =
     (case drainedCallback ndebug cb w of
        Inl e \<Rightarrow> Inl e
      | Inr w' \<Rightarrow> runDrainedCallbacks ndebug cbs w')"

text \<open>
  Modelled from the spec: the connection pool is outside the given sources. The spec says
  that each drained callback runs when its pool reports drained: the pool in slot \<open>i\<close> of
  the container of \<open>host\<close>, if there is one, calls the callbacks registered on it.
\<close>

definition poolDrained ::
  "bool \<Rightarrow> HostPtr \<Rightarrow> nat \<Rightarrow> ThreadLocalClusterManagerImpl \<Rightarrow>
   error + ThreadLocalClusterManagerImpl" where
  "poolDrained ndebug host i w =
     (case host_http_conn_pool_map w host of
        None \<Rightarrow> Inr w
      | Some container \<Rightarrow>
          if i < length (pools container)
          then (case pools container ! i of
                  None \<Rightarrow> Inr w
                | Some pool \<Rightarrow> runDrainedCallbacks ndebug (drained_cbs pool) w)
          else Inr w)"

definition shutdown :: "ThreadLocalClusterManagerImpl \<Rightarrow> ThreadLocalClusterManagerImpl" where
  "shutdown w = w\<lparr>host_http_conn_pool_map := Map.empty\<rparr>"

section \<open>Membership updates on a worker\<close>

text \<open>
  The closure that \<^verbatim>\<open>postThreadLocalClusterUpdate\<close> hands to \<^verbatim>\<open>runOnAllThreads\<close>: the values
  it captures.
\<close>

record Update =
  upd_name :: string
  upd_hosts_copy :: "HostPtr list"
  upd_healthy_hosts_copy :: "HostPtr list"
  upd_hosts_per_zone_copy :: "HostPtr list list"
  upd_healthy_hosts_per_zone_copy :: "HostPtr list list"
  upd_hosts_added :: "HostPtr list"
  upd_hosts_removed :: "HostPtr list"

fun runMemberUpdateCbs ::
  "MemberUpdateCb list \<Rightarrow> HostPtr list \<Rightarrow> HostPtr list \<Rightarrow>
   ThreadLocalClusterManagerImpl \<Rightarrow> ThreadLocalClusterManagerImpl" where
  "runMemberUpdateCbs [] hosts_added hosts_removed w = w"
| "runMemberUpdateCbs (PurgeConnPools # cbs) hosts_added hosts_removed w =
     runMemberUpdateCbs cbs hosts_added hosts_removed (purgeConnPools hosts_removed w)"

text \<open>
  Modelled from the spec: \<^verbatim>\<open>HostSetImpl::updateHosts\<close> is outside the given sources. The spec
  says of a host set that it holds the full host vector, the healthy vector and the two
  per zone groupings, that it notifies its subscribers on change, and that subscribers see
  all four vectors consistent: the four vectors are stored, then every subscriber is called
  with the added and the removed hosts. The host set is the one of the entry under \<open>name\<close>.
\<close>

definition updateHosts ::
  "string \<Rightarrow> ClusterEntry \<Rightarrow> HostPtr list \<Rightarrow> HostPtr list \<Rightarrow> HostPtr list list \<Rightarrow>
   HostPtr list list \<Rightarrow> HostPtr list \<Rightarrow> HostPtr list \<Rightarrow>
   ThreadLocalClusterManagerImpl \<Rightarrow> ThreadLocalClusterManagerImpl" where
  "updateHosts name entry hosts healthy_hosts hosts_per_zone healthy_hosts_per_zone
     hosts_added hosts_removed w =
     runMemberUpdateCbs (hs_callbacks (host_set entry)) hosts_added hosts_removed
       (w\<lparr>thread_local_clusters := (thread_local_clusters w)
            (name \<mapsto> entry\<lparr>host_set := (host_set entry)
               \<lparr>hs_hosts := hosts, hs_healthy_hosts := healthy_hosts,
                hs_hosts_per_zone := hosts_per_zone,
                hs_healthy_hosts_per_zone := healthy_hosts_per_zone\<rparr>\<rparr>)\<rparr>)"

definition updateClusterMembership ::
  "Update \<Rightarrow> ThreadLocalClusterManagerImpl \<Rightarrow> error + ThreadLocalClusterManagerImpl" where
  "updateClusterMembership u config =
     (case thread_local_clusters config (upd_name u) of
        None \<Rightarrow> Inl AssertionFailed
      | Some entry \<Rightarrow>
          Inr (updateHosts (upd_name u) entry (upd_hosts_copy u) (upd_healthy_hosts_copy u)
                 (upd_hosts_per_zone_copy u) (upd_healthy_hosts_per_zone_copy u)
                 (upd_hosts_added u) (upd_hosts_removed u) config))"

text \<open>A worker running the closures posted to it, in the order in which they were posted.\<close>

fun runPosted ::
  "Update list \<Rightarrow> ThreadLocalClusterManagerImpl \<Rightarrow> error + ThreadLocalClusterManagerImpl" where
  "runPosted [] w = Inr w"
| "runPosted (u # us) w =
     (case updateClusterMembership u w of
        Inl e \<Rightarrow> Inl e
      | Inr w' \<Rightarrow> runPosted us w')"

text \<open>The four vectors a host set holds, and the four vectors a posted closure carries.\<close>

definition vectors_of ::
  "HostSet \<Rightarrow> HostPtr list \<times> HostPtr list \<times> HostPtr list list \<times> HostPtr list list" where
  "vectors_of hs =
     (hs_hosts hs, hs_healthy_hosts hs, hs_hosts_per_zone hs, hs_healthy_hosts_per_zone hs)"

definition snapshot_of ::
  "Update \<Rightarrow> HostPtr list \<times> HostPtr list \<times> HostPtr list list \<times> HostPtr list list" where
  "snapshot_of u =
     (upd_hosts_copy u, upd_healthy_hosts_copy u, upd_hosts_per_zone_copy u,
      upd_healthy_hosts_per_zone_copy u)"

fun last_update_for :: "string \<Rightarrow> Update list \<Rightarrow> Update option" where
  "last_update_for n [] = None"
| "last_update_for n (u # us) =
     (case last_update_for n us of
        Some u' \<Rightarrow> Some u'
      | None \<Rightarrow> (if upd_name u = n then Some u else None))"

section \<open>What happens on a worker, one event after the other\<close>

text \<open>
  A worker runs one thing at a time: a request for a pool or for a connection, a posted
  membership update, or a pool reporting drained. An exception of a request leaves the
  worker running; a failed assertion ends the run.
\<close>

datatype event =
    HttpConnPool string ResourcePriority
  | TcpConn string
  | MemberUpdate Update
  | PoolDrained HostPtr nat

fun worker_step ::
  "bool \<Rightarrow> chooseHost \<Rightarrow> featureEnabled \<Rightarrow> event \<Rightarrow>
   ThreadLocalClusterManagerImpl \<Rightarrow> error + ThreadLocalClusterManagerImpl" where
  "worker_step ndebug ch fe (HttpConnPool cluster priority) w =
     (if fst (httpConnPoolForCluster ch fe cluster priority w) = Inl AssertionFailed
      then Inl AssertionFailed
      else Inr (snd (httpConnPoolForCluster ch fe cluster priority w)))"
| "worker_step ndebug ch fe (TcpConn cluster) w = Inr (snd (tcpConnForCluster ch cluster w))"
| "worker_step ndebug ch fe (MemberUpdate u) w = updateClusterMembership u w"
| "worker_step ndebug ch fe (PoolDrained host i) w = poolDrained ndebug host i w"

fun worker_run ::
  "bool \<Rightarrow> chooseHost \<Rightarrow> featureEnabled \<Rightarrow> event list \<Rightarrow>
   ThreadLocalClusterManagerImpl \<Rightarrow> error + ThreadLocalClusterManagerImpl" where
  "worker_run ndebug ch fe [] w = Inr w"
| "worker_run ndebug ch fe (ev # evs) w =
     (case worker_step ndebug ch fe ev w of
        Inl e \<Rightarrow> Inl e
      | Inr w' \<Rightarrow> worker_run ndebug ch fe evs w')"

text \<open>How often the membership updates among the events list a host as removed.\<close>

fun removals :: "HostPtr \<Rightarrow> event list \<Rightarrow> nat" where
  "removals h [] = 0"
| "removals h (MemberUpdate u # evs) = count_list (upd_hosts_removed u) h + removals h evs"
| "removals h (ev # evs) = removals h evs"

section \<open>The primary cluster manager\<close>

text \<open>
  The configuration, as far as the cluster manager reads it. The constructors of the
  cluster classes read the rest of a cluster's object (name, balancer policy, features,
  static hosts); they are outside the given sources, and the fields below stand for what
  they read.
\<close>

record ClusterJson =
  cfg_name :: string
  cfg_type :: string
  cfg_lb_type :: LoadBalancerType
  cfg_features :: "64 word"
  cfg_hosts :: "HostPtr list"
  cfg_health_check :: "string option"

record SdsJson =
  sds_cluster :: ClusterJson
  sds_refresh_delay_ms :: int

record ConfigJson =
  cfg_clusters :: "ClusterJson list"
  cfg_sds :: "SdsJson option"
  cfg_local_cluster_name :: "string option"
  cfg_event_log_path :: "string option"

datatype ClusterClass = StaticClusterImpl | StrictDnsClusterImpl | LogicalDnsCluster | SdsClusterImpl

datatype HealthChecker = ProdHttpHealthCheckerImpl | TcpHealthCheckerImpl

text \<open>
  The callback that \<^verbatim>\<open>loadCluster\<close> adds to every primary cluster with
  \<^verbatim>\<open>addMemberUpdateCb\<close>: it posts the update to the workers.
\<close>

datatype ClusterMemberUpdateCb = PostThreadLocalClusterUpdate

record ClusterImplBase =
  cluster_info :: ClusterInfo
  cluster_class :: ClusterClass
  cluster_lbType :: LoadBalancerType
  cluster_hosts :: "HostPtr list"
  cluster_healthy_hosts :: "HostPtr list"
  cluster_hosts_per_zone :: "HostPtr list list"
  cluster_healthy_hosts_per_zone :: "HostPtr list list"
  cluster_health_checker :: "HealthChecker option"
  cluster_initialized_cb :: bool
  cluster_member_update_cbs :: "ClusterMemberUpdateCb list"

record SdsConfig =
  sdsc_local_zone_name :: string
  sdsc_sds_cluster_name :: string
  sdsc_refresh_delay_ms :: int

text \<open>
  The thread local registry, as far as the cluster manager uses it: for every worker thread
  the closures posted to it that it has not run yet.
\<close>

type_synonym ThreadLocalInstance = "Update list list"

text \<open>
  \<open>primary_clusters\<close> is the map of the source, kept as the list of its pairs in the order
  in which a \<^verbatim>\<open>for\<close> loop visits them. The source does not fix that order; the list has the
  pairs in the order of their insertion, and where a statement below speaks of the order
  in which the entries of a worker are created, it is the order of this list, whichever it
  is. \<open>sds_clusters\<close> holds pointers to the SDS clusters,
  represented by their names. \<open>initialized_callback\<close> says whether a callback is
  registered. \<open>initialized_callback_calls\<close> counts the calls of that callback and
  \<open>sds_initialize_calls\<close> lists the SDS clusters on which \<^verbatim>\<open>initialize()\<close> was called.
\<close>

record ClusterManagerImpl =
  primary_clusters :: "(string \<times> ClusterImplBase) list"
  sds_clusters :: "string list"
  sds_config :: "SdsConfig option"
  pending_cluster_init :: nat
  initialized_callback :: bool
  initialized_callback_calls :: nat
  sds_initialize_calls :: "string list"
  cm_local_cluster_name :: "string option"

text \<open>
  What a cluster constructor leaves behind: a static cluster starts with the hosts of its
  configuration, all of them healthy and in one zone group; the others start empty.
  \<open>cluster_initialized_cb\<close> says that the cluster holds the closure given to
  \<^verbatim>\<open>setInitializedCb\<close> and has not called it yet.
\<close>

definition new_cluster_of :: "ClusterClass \<Rightarrow> ClusterJson \<Rightarrow> ClusterImplBase" where
  "new_cluster_of cls cluster =
     \<lparr>cluster_info = \<lparr>info_name = cfg_name cluster, info_features = cfg_features cluster\<rparr>,
      cluster_class = cls,
      cluster_lbType = cfg_lb_type cluster,
      cluster_hosts = (if cls = StaticClusterImpl then cfg_hosts cluster else []),
      cluster_healthy_hosts = (if cls = StaticClusterImpl then cfg_hosts cluster else []),
      cluster_hosts_per_zone = (if cls = StaticClusterImpl then [cfg_hosts cluster] else []),
      cluster_healthy_hosts_per_zone = (if cls = StaticClusterImpl then [cfg_hosts cluster] else []),
      cluster_health_checker = None,
      cluster_initialized_cb = False,
      cluster_member_update_cbs = []\<rparr>"

text \<open>
  The closure that \<^verbatim>\<open>loadCluster\<close> hands to \<^verbatim>\<open>setInitializedCb\<close> of every cluster. It reads
  \<^verbatim>\<open>sds_clusters_.size()\<close> when it is called. With the assertion compiled out, a call that
  finds the counter at zero wraps it.
\<close>

definition clusterInitialized :: "bool \<Rightarrow> ClusterManagerImpl \<Rightarrow> error + ClusterManagerImpl" where
  "clusterInitialized ndebug cm =
     (if \<not> ndebug \<and> \<not> pending_cluster_init cm > 0 then Inl AssertionFailed
      else (let cm1 = cm\<lparr>pending_cluster_init := u32_dec (pending_cluster_init cm)\<rparr>
            in if pending_cluster_init cm1 = 0
               then (if initialized_callback cm1
                     then Inr (cm1\<lparr>initialized_callback_calls := initialized_callback_calls cm1 + 1\<rparr>)
                     else Inr cm1)
               else if pending_cluster_init cm1 = length (sds_clusters cm1)
               then Inr (cm1\<lparr>sds_initialize_calls := sds_initialize_calls cm1 @ sds_clusters cm1\<rparr>)
               else Inr cm1))"

text \<open>
  Modelled from the spec: \<^verbatim>\<open>setInitializedCb\<close> belongs to the cluster classes, which are
  outside the given sources. The spec says that a static cluster resolves once from its
  configuration and that its initialized callback fires immediately after the first
  population of its host set, which its constructor has done: a static cluster calls the
  closure at once. The spec gives the other classes a first resolution that comes later
  (DNS, the discovery service): they keep the closure.
\<close>

definition setInitializedCb ::
  "bool \<Rightarrow> ClusterImplBase \<Rightarrow> ClusterManagerImpl \<Rightarrow> error + (ClusterImplBase \<times> ClusterManagerImpl)" where
  "setInitializedCb ndebug new_cluster cm =
     (if cluster_class new_cluster = StaticClusterImpl
      then (case clusterInitialized ndebug cm of
              Inl e \<Rightarrow> Inl e
            | Inr cm' \<Rightarrow> Inr (new_cluster, cm'))
      else Inr (new_cluster\<lparr>cluster_initialized_cb := True\<rparr>, cm))"

text \<open>
  \<^verbatim>\<open>loadCluster\<close>, in the order of the source: the class by the type string, the duplicate
  check, the initialized closure, the member update callback, the health checker, and the
  insertion into \<open>primary_clusters\<close>. The outlier detector is left out.
\<close>

definition loadCluster ::
  "bool \<Rightarrow> ClusterJson \<Rightarrow> ClusterManagerImpl \<Rightarrow> error + ClusterManagerImpl" where
  "loadCluster ndebug cluster cm =
     (let string_type = cfg_type cluster
      in case (if string_type = ''static'' then Inr (new_cluster_of StaticClusterImpl cluster, cm)
               else if string_type = ''strict_dns'' then Inr (new_cluster_of StrictDnsClusterImpl cluster, cm)
               else if string_type = ''logical_dns'' then Inr (new_cluster_of LogicalDnsCluster cluster, cm)
               else if string_type = ''sds'' then
                 (if sds_config cm = None then Inl SdsWithoutSdsConfig
                  else Inr (new_cluster_of SdsClusterImpl cluster,
                            cm\<lparr>sds_clusters := sds_clusters cm @ [cfg_name cluster]\<rparr>))
               else Inl (UnknownClusterType string_type)) of
           Inl e \<Rightarrow> Inl e
         | Inr (new_cluster, cm1) \<Rightarrow>
             if map_of (primary_clusters cm1) (info_name (cluster_info new_cluster)) \<noteq> None
             then Inl (DuplicateCluster (info_name (cluster_info new_cluster)))
             else (case setInitializedCb ndebug new_cluster cm1 of
                     Inl e \<Rightarrow> Inl e
                   | Inr (new_cluster1, cm2) \<Rightarrow>
                       (let new_cluster2 = new_cluster1
                              \<lparr>cluster_member_update_cbs :=
                                 cluster_member_update_cbs new_cluster1 @ [PostThreadLocalClusterUpdate]\<rparr>
                        in case (case cfg_health_check cluster of
                                   None \<Rightarrow> Inr new_cluster2
                                 | Some hc_type \<Rightarrow>
                                     if hc_type = ''http''
                                     then Inr (new_cluster2\<lparr>cluster_health_checker := Some ProdHttpHealthCheckerImpl\<rparr>)
                                     else if hc_type = ''tcp''
                                     then Inr (new_cluster2\<lparr>cluster_health_checker := Some TcpHealthCheckerImpl\<rparr>)
                                     else Inl (UnknownHealthCheckType hc_type)) of
                             Inl e \<Rightarrow> Inl e
                           | Inr new_cluster3 \<Rightarrow>
                               Inr (cm2\<lparr>primary_clusters := primary_clusters cm2 @
                                          [(info_name (cluster_info new_cluster3), new_cluster3)]\<rparr>))))"

fun loadClusters ::
  "bool \<Rightarrow> ClusterJson list \<Rightarrow> ClusterManagerImpl \<Rightarrow> error + ClusterManagerImpl" where
  "loadClusters ndebug [] cm = Inr cm"
| "loadClusters ndebug (cluster # clusters) cm =
     (case loadCluster ndebug cluster cm of
        Inl e \<Rightarrow> Inl e
      | Inr cm' \<Rightarrow> loadClusters ndebug clusters cm')"

text \<open>
  Modelled from the spec: \<^verbatim>\<open>ThreadLocal::Instance::runOnAllThreads\<close> is outside the given
  sources. The spec says that the primary enqueues one task per worker.
\<close>

definition runOnAllThreads :: "Update \<Rightarrow> ThreadLocalInstance \<Rightarrow> ThreadLocalInstance" where
  "runOnAllThreads cb tls = map (\<lambda>posted. posted @ [cb]) tls"

definition postThreadLocalClusterUpdate ::
  "ClusterImplBase \<Rightarrow> HostPtr list \<Rightarrow> HostPtr list \<Rightarrow> ThreadLocalInstance \<Rightarrow> ThreadLocalInstance" where
  "postThreadLocalClusterUpdate primary_cluster' hosts_added hosts_removed tls =
     runOnAllThreads
       \<lparr>upd_name = info_name (cluster_info primary_cluster'),
        upd_hosts_copy = cluster_hosts primary_cluster',
        upd_healthy_hosts_copy = cluster_healthy_hosts primary_cluster',
        upd_hosts_per_zone_copy = cluster_hosts_per_zone primary_cluster',
        upd_healthy_hosts_per_zone_copy = cluster_healthy_hosts_per_zone primary_cluster',
        upd_hosts_added = hosts_added,
        upd_hosts_removed = hosts_removed\<rparr> tls"

text \<open>The last loop of the constructor: clusters that start with hosts post an update.\<close>

fun postInitialUpdates :: "(string \<times> ClusterImplBase) list \<Rightarrow> ThreadLocalInstance \<Rightarrow> ThreadLocalInstance" where
  "postInitialUpdates [] tls = tls"
| "postInitialUpdates (cluster # clusters) tls =
     postInitialUpdates clusters
       (if cluster_hosts (snd cluster) = [] then tls
        else postThreadLocalClusterUpdate (snd cluster) (cluster_hosts (snd cluster)) [] tls)"

text \<open>
  The constructor \<^verbatim>\<open>ClusterManagerImpl::ClusterManagerImpl\<close>, which is the load of a
  configuration: an exception leaves no cluster manager. The outlier event logger and the
  registration of the per worker constructor with the thread local registry are left out;
  the per worker constructor is modelled on its own below.
\<close>

definition ClusterManagerImpl_new ::
  "bool \<Rightarrow> ConfigJson \<Rightarrow> string \<Rightarrow> ThreadLocalInstance \<Rightarrow>
   error + (ClusterManagerImpl \<times> ThreadLocalInstance)" where
  "ClusterManagerImpl_new ndebug config local_zone_name tls =
     (let cm0 = \<lparr>primary_clusters = [], sds_clusters = [], sds_config = None,
                 pending_cluster_init = length (cfg_clusters config),
                 initialized_callback = False, initialized_callback_calls = 0,
                 sds_initialize_calls = [], cm_local_cluster_name = None\<rparr>
      in case (case cfg_sds config of
                 None \<Rightarrow> Inr cm0
               | Some sds \<Rightarrow>
                   (case loadCluster ndebug (sds_cluster sds)
                           (cm0\<lparr>pending_cluster_init := pending_cluster_init cm0 + 1\<rparr>) of
                      Inl e \<Rightarrow> Inl e
                    | Inr cm1 \<Rightarrow>
                        Inr (cm1\<lparr>sds_config := Some
                               \<lparr>sdsc_local_zone_name = local_zone_name,
                                sdsc_sds_cluster_name = cfg_name (sds_cluster sds),
                                sdsc_refresh_delay_ms = sds_refresh_delay_ms sds\<rparr>\<rparr>))) of
           Inl e \<Rightarrow> Inl e
         | Inr cm2 \<Rightarrow>
             (case loadClusters ndebug (cfg_clusters config) cm2 of
                Inl e \<Rightarrow> Inl e
              | Inr cm3 \<Rightarrow>
                  (case cfg_local_cluster_name config of
                     None \<Rightarrow> Inr (cm3, postInitialUpdates (primary_clusters cm3) tls)
                   | Some local_cluster_name \<Rightarrow>
                       if map_of (primary_clusters cm3) local_cluster_name = None
                       then Inl (LocalClusterNotDefined local_cluster_name)
                       else Inr (cm3\<lparr>cm_local_cluster_name := Some local_cluster_name\<rparr>,
                                 postInitialUpdates (primary_clusters cm3) tls))))"

text \<open>
  After the load, a cluster that still holds the closure calls it when its first
  resolution is complete: a DNS cluster when its names are resolved, an SDS cluster after
  \<^verbatim>\<open>initialize()\<close> was called on it and the discovery service has answered.
\<close>

definition holds_closure :: "ClusterManagerImpl \<Rightarrow> string list" where
  "holds_closure cm =
     map fst (filter (\<lambda>cluster. cluster_initialized_cb (snd cluster)) (primary_clusters cm))"

section \<open>Construction of the per worker object\<close>

definition ClusterEntry_new :: "ClusterImplBase \<Rightarrow> string option \<Rightarrow> ClusterEntry" where
  "ClusterEntry_new cluster local_host_set =
     \<lparr>primary_cluster = cluster_info cluster,
      host_set = new_HostSet,
      lb = (case cluster_lbType cluster of
              LeastRequest \<Rightarrow>
                \<lparr>lb_type = LeastRequest, lb_local_host_set = local_host_set, lb_state = 0\<rparr>
            | Random \<Rightarrow>
                \<lparr>lb_type = Random, lb_local_host_set = local_host_set, lb_state = 0\<rparr>
            | RoundRobin \<Rightarrow>
                \<lparr>lb_type = RoundRobin, lb_local_host_set = local_host_set, lb_state = 0\<rparr>),
      http_async_client = AsyncClientImpl (info_name (cluster_info cluster))\<rparr>"

text \<open>The second loop of the constructor: every cluster but the local one.\<close>

fun create_entries ::
  "(string \<times> ClusterImplBase) list \<Rightarrow> string option \<Rightarrow> string option \<Rightarrow>
   ThreadLocalClusterManagerImpl \<Rightarrow> ThreadLocalClusterManagerImpl" where
  "create_entries [] local_cluster_name local_host_set w = w"
| "create_entries (cluster # clusters) local_cluster_name local_host_set w =
     create_entries clusters local_cluster_name local_host_set
       (if local_cluster_name = Some (fst cluster) then w
        else w\<lparr>thread_local_clusters := (thread_local_clusters w)
                 (fst cluster \<mapsto> ClusterEntry_new (snd cluster) local_host_set),
               entries_created := entries_created w @ [fst cluster]\<rparr>)"

text \<open>
  The third loop: the purge callback is added to the host set of every entry. The order of
  the visits does not show in the result.
\<close>

definition add_purge_callbacks :: "ThreadLocalClusterManagerImpl \<Rightarrow> ThreadLocalClusterManagerImpl" where
  "add_purge_callbacks w =
     w\<lparr>thread_local_clusters :=
         (\<lambda>name. case thread_local_clusters w name of
                    None \<Rightarrow> None
                  | Some entry \<Rightarrow>
                      Some (entry\<lparr>host_set := (host_set entry)
                              \<lparr>hs_callbacks := hs_callbacks (host_set entry) @ [PurgeConnPools]\<rparr>\<rparr>))\<rparr>"

text \<open>
  \<^verbatim>\<open>parent.primary_clusters_[name]\<close> on a missing key yields a null pointer, which the
  constructor of \<^verbatim>\<open>ClusterEntry\<close> dereferences. \<open>stats\<close> are the counters of the clusters.
\<close>

definition ThreadLocalClusterManagerImpl_new ::
  "ClusterManagerImpl \<Rightarrow> (string \<Rightarrow> nat) \<Rightarrow> string option \<Rightarrow> error + ThreadLocalClusterManagerImpl" where
  "ThreadLocalClusterManagerImpl_new parent stats local_cluster_name =
     (let w0 = \<lparr>thread_local_clusters = Map.empty, host_http_conn_pool_map = Map.empty,
                 deferred_delete = [], pools_allocated = 0, upstream_cx_none_healthy = stats,
                 entries_created = []\<rparr>
      in case (case local_cluster_name of
                 None \<Rightarrow> Inr w0
               | Some name \<Rightarrow>
                   (case map_of (primary_clusters parent) name of
                      None \<Rightarrow> Inl NullDereference
                    | Some local_cluster \<Rightarrow>
                        Inr (w0\<lparr>thread_local_clusters := (thread_local_clusters w0)
                                  (name \<mapsto> ClusterEntry_new local_cluster None),
                                entries_created := entries_created w0 @ [name]\<rparr>))) of
           Inl e \<Rightarrow> Inl e
         | Inr w1 \<Rightarrow>
             Inr (add_purge_callbacks
                    (create_entries (primary_clusters parent) local_cluster_name
                       local_cluster_name w1)))"

section \<open>Round robin selection\<close>

text \<open>
  Modelled from the spec: \<^verbatim>\<open>RoundRobinLoadBalancer::chooseHost\<close> is outside the given sources.
  The spec says: a cyclic index over the healthy vector; if it is empty, the balancer falls
  back to the full vector and then returns absent; and if the healthy fraction drops below
  a runtime threshold (default 50 percent), selectors pick from the full vector. Zone aware
  routing, which the spec describes by a probability, is left out: the local host set is
  not read.
\<close>

definition hostsToUse :: "HostSet \<Rightarrow> HostPtr list" where
  "hostsToUse hs =
     (if 100 * length (hs_healthy_hosts hs) < 50 * length (hs_hosts hs) then hs_hosts hs
      else if hs_healthy_hosts hs = [] then hs_hosts hs
      else hs_healthy_hosts hs)"

text \<open>
  Modelled from the spec: the cyclic index is the balancer's state, taken modulo the number
  of candidate hosts and advanced by every successful selection.
\<close>

definition roundRobin_chooseHost :: chooseHost where
  "roundRobin_chooseHost b hs local_hs =
     (let v = hostsToUse hs
      in if v = [] then (None, b)
         else (Some (v ! (lb_state b mod length v)), b\<lparr>lb_state := lb_state b + 1\<rparr>))"

text \<open>
  The dispatch on the policy of the balancer that \<^verbatim>\<open>ClusterEntry\<close> constructed; the two other
  policies stay a parameter.
\<close>

definition lb_chooseHost :: "chooseHost \<Rightarrow> chooseHost" where
  "lb_chooseHost other b hs local_hs =
     (case lb_type b of
        RoundRobin \<Rightarrow> roundRobin_chooseHost b hs local_hs
      | LeastRequest \<Rightarrow> other b hs local_hs
      | Random \<Rightarrow> other b hs local_hs)"

section \<open>A scenario: one static round robin cluster with two healthy hosts\<close>

definition scenario_info :: ClusterInfo where
  "scenario_info = \<lparr>info_name = ''c'', info_features = 1\<rparr>"

definition scenario_host1 :: Host where
  "scenario_host1 = \<lparr>host_id = 1, host_address = ''10.0.0.1:80'', host_cluster = scenario_info\<rparr>"

definition scenario_host2 :: Host where
  "scenario_host2 = \<lparr>host_id = 2, host_address = ''10.0.0.2:80'', host_cluster = scenario_info\<rparr>"

definition scenario_config :: ConfigJson where
  "scenario_config =
     \<lparr>cfg_clusters = [\<lparr>cfg_name = ''c'', cfg_type = ''static'', cfg_lb_type = RoundRobin,
                       cfg_features = 1, cfg_hosts = [scenario_host1, scenario_host2],
                       cfg_health_check = None\<rparr>],
      cfg_sds = None, cfg_local_cluster_name = None, cfg_event_log_path = None\<rparr>"

definition scenario_entry :: ClusterEntry where
  "scenario_entry =
     \<lparr>primary_cluster = scenario_info,
      host_set = \<lparr>hs_hosts = [scenario_host1, scenario_host2],
                  hs_healthy_hosts = [scenario_host1, scenario_host2],
                  hs_hosts_per_zone = [[scenario_host1, scenario_host2]],
                  hs_healthy_hosts_per_zone = [[scenario_host1, scenario_host2]],
                  hs_callbacks = [PurgeConnPools]\<rparr>,
      lb = \<lparr>lb_type = RoundRobin, lb_local_host_set = None, lb_state = 0\<rparr>,
      http_async_client = AsyncClientImpl ''c''\<rparr>"

definition scenario_worker :: ThreadLocalClusterManagerImpl where
  "scenario_worker =
     \<lparr>thread_local_clusters = [''c'' \<mapsto> scenario_entry],
      host_http_conn_pool_map = Map.empty,
      deferred_delete = [], pools_allocated = 0,
      upstream_cx_none_healthy = (\<lambda>name. 0),
      entries_created = [''c'']\<rparr>"

text \<open>A balancer that finds no host, and a runtime in which every feature is enabled.\<close>

definition no_host :: chooseHost where
  "no_host b hs local_hs = (None, b)"

definition all_enabled :: featureEnabled where
  "all_enabled key default_value = True"

text \<open>
  The same worker after a first request for host 1 at the default priority: one container
  with one pool.
\<close>

definition scenario_pool :: ConnPool where
  "scenario_pool = allocateConnPool all_enabled scenario_host1 Default 0"

definition scenario_container :: ConnPoolsContainer where
  "scenario_container = \<lparr>pools = [Some scenario_pool, None], drains_remaining = 0\<rparr>"

definition scenario_busy_worker :: ThreadLocalClusterManagerImpl where
  "scenario_busy_worker =
     scenario_worker\<lparr>host_http_conn_pool_map := [scenario_host1 \<mapsto> scenario_container],
                     pools_allocated := 1\<rparr>"

text \<open>
  A second scenario: a static cluster \<open>S\<close> and an SDS cluster \<open>Q\<close>, with an SDS
  configuration whose backing cluster \<open>D\<close> is resolved by DNS.
\<close>

definition scenario_sds_config :: ConfigJson where
  "scenario_sds_config =
     \<lparr>cfg_clusters =
        [\<lparr>cfg_name = ''S'', cfg_type = ''static'', cfg_lb_type = RoundRobin,
          cfg_features = 0, cfg_hosts = [], cfg_health_check = None\<rparr>,
         \<lparr>cfg_name = ''Q'', cfg_type = ''sds'', cfg_lb_type = LeastRequest,
          cfg_features = 0, cfg_hosts = [], cfg_health_check = Some ''http''\<rparr>],
      cfg_sds = Some
        \<lparr>sds_cluster = \<lparr>cfg_name = ''D'', cfg_type = ''strict_dns'', cfg_lb_type = Random,
                         cfg_features = 0, cfg_hosts = [], cfg_health_check = None\<rparr>,
         sds_refresh_delay_ms = 30000\<rparr>,
      cfg_local_cluster_name = Some ''S'', cfg_event_log_path = None\<rparr>"

text \<open>
  A primary cluster manager with the cluster \<open>c\<close> of the first scenario and a local
  cluster \<open>l\<close>.
\<close>

definition scenario_primary :: ClusterImplBase where
  "scenario_primary =
     (new_cluster_of StaticClusterImpl (hd (cfg_clusters scenario_config)))
       \<lparr>cluster_member_update_cbs := [PostThreadLocalClusterUpdate]\<rparr>"

definition scenario_local_primary :: ClusterImplBase where
  "scenario_local_primary =
     new_cluster_of StrictDnsClusterImpl
       \<lparr>cfg_name = ''l'', cfg_type = ''strict_dns'', cfg_lb_type = Random,
        cfg_features = 0, cfg_hosts = [], cfg_health_check = None\<rparr>"

definition scenario_parent :: ClusterManagerImpl where
  "scenario_parent =
     \<lparr>primary_clusters = [(''c'', scenario_primary), (''l'', scenario_local_primary)],
      sds_clusters = [], sds_config = None, pending_cluster_init = 2,
      initialized_callback = False, initialized_callback_calls = 0,
      sds_initialize_calls = [], cm_local_cluster_name = Some ''l''\<rparr>"

text \<open>
  The first scenario from the load on: the cluster manager that the load of its
  configuration gives, the update that the load posts, and an update that removes host 1.
\<close>

definition scenario_cm :: ClusterManagerImpl where
  "scenario_cm =
     \<lparr>primary_clusters = [(''c'', scenario_primary)],
      sds_clusters = [], sds_config = None, pending_cluster_init = 0,
      initialized_callback = False, initialized_callback_calls = 0,
      sds_initialize_calls = [], cm_local_cluster_name = None\<rparr>"

definition scenario_update :: Update where
  "scenario_update =
     \<lparr>upd_name = ''c'',
      upd_hosts_copy = [scenario_host1, scenario_host2],
      upd_healthy_hosts_copy = [scenario_host1, scenario_host2],
      upd_hosts_per_zone_copy = [[scenario_host1, scenario_host2]],
      upd_healthy_hosts_per_zone_copy = [[scenario_host1, scenario_host2]],
      upd_hosts_added = [scenario_host1, scenario_host2],
      upd_hosts_removed = []\<rparr>"

definition scenario_removal :: Update where
  "scenario_removal =
     \<lparr>upd_name = ''c'',
      upd_hosts_copy = [scenario_host2],
      upd_healthy_hosts_copy = [scenario_host2],
      upd_hosts_per_zone_copy = [[scenario_host2]],
      upd_healthy_hosts_per_zone_copy = [[scenario_host2]],
      upd_hosts_added = [],
      upd_hosts_removed = [scenario_host1]\<rparr>"

text \<open>
  The worker of the first scenario as its constructor leaves it, before the update that the
  load has posted, and the same worker after that update and a first request, which was
  served by host 1.
\<close>

definition scenario_fresh_worker :: ThreadLocalClusterManagerImpl where
  "scenario_fresh_worker =
     scenario_worker\<lparr>thread_local_clusters :=
       [''c'' \<mapsto> scenario_entry\<lparr>host_set := new_HostSet\<lparr>hs_callbacks := [PurgeConnPools]\<rparr>\<rparr>]\<rparr>"

definition scenario_served_worker :: ThreadLocalClusterManagerImpl where
  "scenario_served_worker =
     scenario_busy_worker\<lparr>thread_local_clusters :=
       [''c'' \<mapsto> scenario_entry\<lparr>lb := (lb scenario_entry)\<lparr>lb_state := 1\<rparr>\<rparr>]\<rparr>"

text \<open>
  The second scenario with a static cluster \<open>D\<close> behind the SDS configuration, and the same
  with the two clusters of the list in the other order.
\<close>

definition scenario_static_sds_config :: ConfigJson where
  "scenario_static_sds_config =
     scenario_sds_config
       \<lparr>cfg_sds := Some
          \<lparr>sds_cluster = \<lparr>cfg_name = ''D'', cfg_type = ''static'', cfg_lb_type = Random,
                           cfg_features = 0, cfg_hosts = [], cfg_health_check = None\<rparr>,
           sds_refresh_delay_ms = 30000\<rparr>\<rparr>"

definition scenario_static_sds_config_swapped :: ConfigJson where
  "scenario_static_sds_config_swapped =
     scenario_static_sds_config
       \<lparr>cfg_clusters := rev (cfg_clusters scenario_static_sds_config)\<rparr>"

section \<open>Vocabulary of the statements about the load\<close>

text \<open>The errors that the load of a configuration raises.\<close>

fun is_ConfigError :: "error \<Rightarrow> bool" where
  "is_ConfigError (UnknownClusterType t) = True"
| "is_ConfigError SdsWithoutSdsConfig = True"
| "is_ConfigError (DuplicateCluster n) = True"
| "is_ConfigError (UnknownHealthCheckType t) = True"
| "is_ConfigError (LocalClusterNotDefined n) = True"
| "is_ConfigError (UnknownCluster n) = False"
| "is_ConfigError AssertionFailed = False"
| "is_ConfigError NullDereference = False"

text \<open>
  All cluster objects of a configuration in the order in which the constructor loads them:
  the cluster behind the SDS configuration, then the list of clusters.
\<close>

definition configured_clusters :: "ConfigJson \<Rightarrow> ClusterJson list" where
  "configured_clusters config =
     (case cfg_sds config of None \<Rightarrow> [] | Some sds \<Rightarrow> [sds_cluster sds]) @ cfg_clusters config"

definition known_type :: "string \<Rightarrow> bool" where
  "known_type t = (t = ''static'' \<or> t = ''strict_dns'' \<or> t = ''logical_dns'' \<or> t = ''sds'')"

section \<open>Vocabulary of the proofs about draining\<close>

text \<open>
  Three facts about a worker that hold along every run: which callbacks are subscribed to
  the host set of each entry; that the drained callbacks on the pools of a host's container
  are callbacks for that host; and, for a host that no update has reported removed, that
  its container is not draining, holds no drained callback and holds a pool.
\<close>

definition subscribers :: "ThreadLocalClusterManagerImpl \<Rightarrow> string \<Rightarrow> MemberUpdateCb list option" where
  "subscribers w name =
     map_option (\<lambda>entry. hs_callbacks (host_set entry)) (thread_local_clusters w name)"

definition callbacks_owned :: "ThreadLocalClusterManagerImpl \<Rightarrow> bool" where
  "callbacks_owned w =
     (\<forall>h c. host_http_conn_pool_map w h = Some c \<longrightarrow> set (registered_callbacks (pools c)) \<subseteq> {h})"

definition not_draining :: "HostPtr \<Rightarrow> ThreadLocalClusterManagerImpl \<Rightarrow> bool" where
  "not_draining h w =
     (\<forall>c. host_http_conn_pool_map w h = Some c \<longrightarrow>
          drains_remaining c = 0 \<and> registered_callbacks (pools c) = []
        \<and> (\<exists>pool. Some pool \<in> set (pools c)))"

section \<open>Outlier detection host sinks (outlier_detection_impl.h)\<close>

text \<open>
  The two implementations of \<^verbatim>\<open>DetectorHostSink\<close>. The generic sink keeps a reference to its
  detector, a weak reference to its host, the atomic 5xx counter, the ejection time and the
  ejection count; the null sink has no state.
\<close>

record DetectorHostSinkImpl =
  sink_detector :: nat
  sink_host :: HostPtr
  consecutive_5xx :: "32 word"
  ejection_time :: nat
  num_ejections :: "32 word"

datatype DetectorHostSink =
    DetectorHostSinkNullImpl
  | DetectorHostSinkGeneric DetectorHostSinkImpl

fun numEjections :: "DetectorHostSink \<Rightarrow> 32 word" where
  "numEjections DetectorHostSinkNullImpl = 0"
| "numEjections (DetectorHostSinkGeneric s) = num_ejections s"

text \<open>\<^verbatim>\<open>putResponseTime(std::chrono::milliseconds)\<close> has an empty body in both classes.\<close>

fun putResponseTime :: "int \<Rightarrow> DetectorHostSink \<Rightarrow> DetectorHostSink" where
  "putResponseTime ms DetectorHostSinkNullImpl = DetectorHostSinkNullImpl"
| "putResponseTime ms (DetectorHostSinkGeneric s) = DetectorHostSinkGeneric s"

section \<open>Results\<close>

subsection \<open>The scenarios are states that the model reaches\<close>

text \<open>
  Loading the configuration of the first scenario gives its cluster manager and posts one
  update; constructing a worker from that manager and running the update gives the worker
  of the scenario; a first request for a pool on that worker is served by host 1 and gives
  the worker with one pool.
\<close>

lemma scenario_loaded:
  "ClusterManagerImpl_new ndebug scenario_config ''zone'' [[]] = Inr (scenario_cm, [[scenario_update]])
   \<and> ThreadLocalClusterManagerImpl_new scenario_cm (\<lambda>name. 0) (cm_local_cluster_name scenario_cm)
       = Inr scenario_fresh_worker
   \<and> updateClusterMembership scenario_update scenario_fresh_worker = Inr scenario_worker"
proof -
  have a: "ClusterManagerImpl_new ndebug scenario_config ''zone'' [[]] = Inr (scenario_cm, [[scenario_update]])"
    by (simp add: ClusterManagerImpl_new_def scenario_config_def loadCluster_def Let_def
        setInitializedCb_def clusterInitialized_def u32_dec_def
        new_cluster_of_def scenario_primary_def postThreadLocalClusterUpdate_def
        runOnAllThreads_def scenario_cm_def scenario_update_def)
  have b: "ThreadLocalClusterManagerImpl_new scenario_cm (\<lambda>name. 0) (cm_local_cluster_name scenario_cm)
      = Inr scenario_fresh_worker"
    by (auto simp: ThreadLocalClusterManagerImpl_new_def Let_def add_purge_callbacks_def
        ClusterEntry_new_def scenario_worker_def scenario_entry_def scenario_primary_def
        new_cluster_of_def scenario_config_def scenario_info_def new_HostSet_def scenario_cm_def
        scenario_fresh_worker_def fun_eq_iff)
  have c: "updateClusterMembership scenario_update scenario_fresh_worker = Inr scenario_worker"
    by (auto simp: updateClusterMembership_def updateHosts_def scenario_worker_def
        scenario_entry_def new_HostSet_def scenario_update_def scenario_fresh_worker_def fun_eq_iff)
  from a b c show ?thesis
    by simp
qed

lemma scenario_served:
  "httpConnPoolForCluster (lb_chooseHost no_host) all_enabled ''c'' Default scenario_worker =
     (Inr (Some scenario_pool), scenario_served_worker)"
  by (auto simp: httpConnPoolForCluster_def connPool_def lb_chooseHost_def roundRobin_chooseHost_def
      hostsToUse_def Let_def scenario_worker_def scenario_entry_def scenario_busy_worker_def
      scenario_served_worker_def
      scenario_container_def scenario_pool_def new_ConnPoolsContainer_def NumResourcePriorities_def
      local_host_set_of_def numeral_2_eq_2 fun_eq_iff)

subsection \<open>Outlier detection\<close>

text \<open>
  C10. For every host sink (generic or null) and every reported response time,
  \<open>putResponseTime\<close> returns the sink unchanged: no field of the generic sink, and so no
  ejection count, ejection time or 5xx counter, depends on a reported response time.
\<close>

theorem putResponseTime_noop:
  "putResponseTime ms sink = sink \<and> numEjections (putResponseTime ms sink) = numEjections sink"
  by (cases sink) simp_all
subsection \<open>Pool lookup\<close>

text \<open>
  C4. When the balancer returns a host and the slot of that host for the requested priority
  is empty (no container yet, or a container whose slot is null), \<open>connPool\<close> allocates a
  pool and stores it in the slot. The pool is an HTTP/2 pool if and only if the feature bits
  of the host's cluster contain the HTTP2 bit and the runtime feature \<open>upstream.use_http2\<close>,
  asked with default 100, is enabled for this roll; otherwise it is an HTTP/1 pool.
\<close>

theorem connPool_protocol:
  assumes choose: "ch (lb entry) (host_set entry) (local_host_set_of w (lb entry)) = (Some host, b')"
      and empty: "case host_http_conn_pool_map w host of
                    None \<Rightarrow> True
                  | Some c \<Rightarrow> enumToInt priority < length (pools c) \<and> pools c ! enumToInt priority = None"
  shows "\<exists>p w' c'. connPool ch fe name entry priority w = (Inr (Some p), w')
           \<and> host_http_conn_pool_map w' host = Some c'
           \<and> pools c' ! enumToInt priority = Some p
           \<and> pool_host p = host \<and> pool_priority p = priority
           \<and> pools_allocated w' = pools_allocated w + 1
           \<and> (pool_protocol p = Http2 \<longleftrightarrow>
                 info_features (host_cluster host) AND Features_HTTP2 \<noteq> 0 \<and> fe ''upstream.use_http2'' 100)
           \<and> (pool_protocol p = Http1 \<longleftrightarrow>
                 \<not> (info_features (host_cluster host) AND Features_HTTP2 \<noteq> 0 \<and> fe ''upstream.use_http2'' 100))"
proof (cases "host_http_conn_pool_map w host")
  case None
  then show ?thesis
    using choose
    by (cases priority)
       (simp_all add: connPool_def Let_def new_ConnPoolsContainer_def NumResourcePriorities_def
          allocateConnPool_def)
next
  case (Some c)
  with empty have "enumToInt priority < length (pools c)" "pools c ! enumToInt priority = None"
    by simp_all
  with Some choose show ?thesis
    by (simp add: connPool_def Let_def allocateConnPool_def)
qed

theorem connPool_protocol_witness:
  "\<exists>p w'. connPool roundRobin_chooseHost all_enabled ''c'' scenario_entry Default scenario_worker
             = (Inr (Some p), w') \<and> pool_protocol p = Http2 \<and> pool_host p = scenario_host1"
proof -
  have c: "roundRobin_chooseHost (lb scenario_entry) (host_set scenario_entry)
             (local_host_set_of scenario_worker (lb scenario_entry))
           = (Some scenario_host1, (lb scenario_entry)\<lparr>lb_state := 1\<rparr>)"
    by (simp add: roundRobin_chooseHost_def hostsToUse_def scenario_entry_def Let_def)
  have e: "case host_http_conn_pool_map scenario_worker scenario_host1 of
             None \<Rightarrow> True
           | Some c \<Rightarrow> enumToInt Default < length (pools c) \<and> pools c ! enumToInt Default = None"
    by (simp add: scenario_worker_def)
  have f: "info_features (host_cluster scenario_host1) AND Features_HTTP2 \<noteq> 0
           \<and> all_enabled ''upstream.use_http2'' 100"
    by (simp add: scenario_host1_def scenario_info_def Features_HTTP2_def all_enabled_def)
  from connPool_protocol [where ch = roundRobin_chooseHost and entry = scenario_entry
      and w = scenario_worker and host = scenario_host1 and priority = Default
      and fe = all_enabled and name = "''c''", OF c e] f
  show ?thesis
    by blast
qed

text \<open>
  C5. For a cluster that the worker knows: if the balancer returns no host,
  \<open>httpConnPoolForCluster\<close> returns null and \<open>tcpConnForCluster\<close> returns the pair of nulls,
  and each call adds exactly one to the counter \<open>upstream_cx_none_healthy\<close> of that cluster
  and changes no other counter; if the balancer returns a host, the counters are unchanged.
\<close>

theorem none_healthy_counted:
  assumes known: "thread_local_clusters w cluster = Some entry"
  shows "(fst (ch (lb entry) (host_set entry) (local_host_set_of w (lb entry))) = None \<longrightarrow>
            (\<exists>w'. httpConnPoolForCluster ch fe cluster priority w = (Inr None, w')
                \<and> upstream_cx_none_healthy w' = (upstream_cx_none_healthy w)
                     (info_name (primary_cluster entry) :=
                        upstream_cx_none_healthy w (info_name (primary_cluster entry)) + 1))
          \<and> (\<exists>w'. tcpConnForCluster ch cluster w = (Inr (None, None), w')
                \<and> upstream_cx_none_healthy w' = (upstream_cx_none_healthy w)
                     (info_name (primary_cluster entry) :=
                        upstream_cx_none_healthy w (info_name (primary_cluster entry)) + 1)))
       \<and> (fst (ch (lb entry) (host_set entry) (local_host_set_of w (lb entry))) \<noteq> None \<longrightarrow>
            upstream_cx_none_healthy (snd (httpConnPoolForCluster ch fe cluster priority w))
              = upstream_cx_none_healthy w
          \<and> upstream_cx_none_healthy (snd (tcpConnForCluster ch cluster w))
              = upstream_cx_none_healthy w)"
proof (cases "ch (lb entry) (host_set entry) (local_host_set_of w (lb entry))")
  case (Pair chosen b')
  show ?thesis
  proof (cases chosen)
    case None
    with Pair known show ?thesis
      by (simp add: httpConnPoolForCluster_def tcpConnForCluster_def connPool_def)
  next
    case (Some host)
    with Pair known show ?thesis
      by (simp add: httpConnPoolForCluster_def tcpConnForCluster_def connPool_def Let_def
            split: option.split)
  qed
qed

theorem none_healthy_counted_witness:
  "(\<exists>w'. httpConnPoolForCluster no_host all_enabled ''c'' Default scenario_worker = (Inr None, w')
        \<and> upstream_cx_none_healthy w' ''c'' = 1)
   \<and> (\<exists>w'. tcpConnForCluster no_host ''c'' scenario_worker = (Inr (None, None), w')
        \<and> upstream_cx_none_healthy w' ''c'' = 1)
   \<and> upstream_cx_none_healthy
        (snd (httpConnPoolForCluster roundRobin_chooseHost all_enabled ''c'' Default scenario_worker)) ''c'' = 0
   \<and> upstream_cx_none_healthy (snd (tcpConnForCluster roundRobin_chooseHost ''c'' scenario_worker)) ''c'' = 0"
proof -
  have k: "thread_local_clusters scenario_worker ''c'' = Some scenario_entry"
    by (simp add: scenario_worker_def)
  have n: "fst (no_host (lb scenario_entry) (host_set scenario_entry)
             (local_host_set_of scenario_worker (lb scenario_entry))) = None"
    by (simp add: no_host_def)
  have s: "fst (roundRobin_chooseHost (lb scenario_entry) (host_set scenario_entry)
             (local_host_set_of scenario_worker (lb scenario_entry))) \<noteq> None"
    by (simp add: roundRobin_chooseHost_def hostsToUse_def scenario_entry_def Let_def)
  have z: "upstream_cx_none_healthy scenario_worker ''c'' = 0"
    "info_name (primary_cluster scenario_entry) = ''c''"
    by (simp_all add: scenario_worker_def scenario_entry_def scenario_info_def)
  from none_healthy_counted [OF k, of no_host all_enabled Default] n z
  have a: "(\<exists>w'. httpConnPoolForCluster no_host all_enabled ''c'' Default scenario_worker = (Inr None, w')
        \<and> upstream_cx_none_healthy w' ''c'' = 1)
   \<and> (\<exists>w'. tcpConnForCluster no_host ''c'' scenario_worker = (Inr (None, None), w')
        \<and> upstream_cx_none_healthy w' ''c'' = 1)"
    by auto
  from none_healthy_counted [OF k, of roundRobin_chooseHost all_enabled Default] s z
  have b: "upstream_cx_none_healthy
        (snd (httpConnPoolForCluster roundRobin_chooseHost all_enabled ''c'' Default scenario_worker)) ''c'' = 0
   \<and> upstream_cx_none_healthy (snd (tcpConnForCluster roundRobin_chooseHost ''c'' scenario_worker)) ''c'' = 0"
    by simp
  from a b show ?thesis by blast
qed

text \<open>
  C7. For a cluster name that is not in the worker's map, \<open>httpConnPoolForCluster\<close>,
  \<open>tcpConnForCluster\<close> and \<open>httpAsyncClientForCluster\<close> fail with the unknown cluster error
  and leave the worker's state as it was, and \<open>get\<close> returns null.
\<close>

theorem unknown_cluster:
  assumes "thread_local_clusters w cluster = None"
  shows "httpConnPoolForCluster ch fe cluster priority w = (Inl (UnknownCluster cluster), w)
       \<and> tcpConnForCluster ch cluster w = (Inl (UnknownCluster cluster), w)
       \<and> httpAsyncClientForCluster cluster w = (Inl (UnknownCluster cluster), w)
       \<and> get cluster w = None"
  using assms
  by (simp add: httpConnPoolForCluster_def tcpConnForCluster_def httpAsyncClientForCluster_def get_def)

theorem unknown_cluster_witness:
  "thread_local_clusters scenario_worker ''d'' = None
   \<and> httpConnPoolForCluster roundRobin_chooseHost all_enabled ''d'' Default scenario_worker
       = (Inl (UnknownCluster ''d''), scenario_worker)
   \<and> tcpConnForCluster roundRobin_chooseHost ''d'' scenario_worker
       = (Inl (UnknownCluster ''d''), scenario_worker)
   \<and> httpAsyncClientForCluster ''d'' scenario_worker = (Inl (UnknownCluster ''d''), scenario_worker)
   \<and> get ''d'' scenario_worker = None"
proof -
  have h: "thread_local_clusters scenario_worker ''d'' = None"
    by (simp add: scenario_worker_def)
  show ?thesis
    using h unknown_cluster [OF h, of roundRobin_chooseHost all_enabled Default] by simp
qed
subsection \<open>Round robin over two hosts\<close>

lemma rr_choose_two:
  assumes "lb_type b = RoundRobin" "hs_hosts hs = [h1, h2]" "hs_healthy_hosts hs = [h1, h2]"
  shows "lb_chooseHost other b hs l = (Some ([h1, h2] ! (lb_state b mod 2)), b\<lparr>lb_state := lb_state b + 1\<rparr>)"
  using assms
  by (simp add: lb_chooseHost_def roundRobin_chooseHost_def hostsToUse_def Let_def numeral_2_eq_2)

lemma connPool_first_use:
  assumes "thread_local_clusters w name = Some e"
      and "ch (lb e) (host_set e) (local_host_set_of w (lb e)) = (Some h, b')"
      and "host_http_conn_pool_map w h = None"
  shows "httpConnPoolForCluster ch fe name Default w =
           (Inr (Some (allocateConnPool fe h Default (pools_allocated w))),
            w\<lparr>thread_local_clusters := (thread_local_clusters w)(name \<mapsto> e\<lparr>lb := b'\<rparr>),
              host_http_conn_pool_map := (host_http_conn_pool_map w)
                (h \<mapsto> \<lparr>pools = [Some (allocateConnPool fe h Default (pools_allocated w)), None],
                        drains_remaining = 0\<rparr>),
              pools_allocated := pools_allocated w + 1\<rparr>)"
  using assms
  by (simp add: httpConnPoolForCluster_def connPool_def Let_def new_ConnPoolsContainer_def
        NumResourcePriorities_def numeral_2_eq_2)

lemma connPool_reuse:
  assumes "thread_local_clusters w name = Some e"
      and "ch (lb e) (host_set e) (local_host_set_of w (lb e)) = (Some h, b')"
      and "host_http_conn_pool_map w h = Some c"
      and "pools c = [Some p, q]"
  shows "httpConnPoolForCluster ch fe name Default w =
           (Inr (Some p),
            w\<lparr>thread_local_clusters := (thread_local_clusters w)(name \<mapsto> e\<lparr>lb := b'\<rparr>)\<rparr>)"
proof -
  have "(host_http_conn_pool_map w)(h \<mapsto> c) = host_http_conn_pool_map w"
    using assms(3) by (simp add: fun_upd_idem)
  then show ?thesis
    using assms
    by (simp add: httpConnPoolForCluster_def connPool_def Let_def)
qed

lemma rr_first_use:
  assumes known: "thread_local_clusters w name = Some e"
      and rr: "lb_type (lb e) = RoundRobin"
      and full: "hs_hosts (host_set e) = [h1, h2]"
      and healthy: "hs_healthy_hosts (host_set e) = [h1, h2]"
      and absent: "host_http_conn_pool_map w ([h1, h2] ! (lb_state (lb e) mod 2)) = None"
  shows "\<exists>p w' e'.
           httpConnPoolForCluster (lb_chooseHost other) fe name Default w = (Inr (Some p), w')
         \<and> pool_host p = [h1, h2] ! (lb_state (lb e) mod 2)
         \<and> pool_addr p = pools_allocated w
         \<and> pools_allocated w' = pools_allocated w + 1
         \<and> thread_local_clusters w' name = Some e'
         \<and> lb_type (lb e') = RoundRobin \<and> lb_state (lb e') = Suc (lb_state (lb e))
         \<and> host_set e' = host_set e
         \<and> host_http_conn_pool_map w' = (host_http_conn_pool_map w)
              ([h1, h2] ! (lb_state (lb e) mod 2) \<mapsto> \<lparr>pools = [Some p, None], drains_remaining = 0\<rparr>)"
proof -
  have c: "lb_chooseHost other (lb e) (host_set e) (local_host_set_of w (lb e))
           = (Some ([h1, h2] ! (lb_state (lb e) mod 2)), (lb e)\<lparr>lb_state := lb_state (lb e) + 1\<rparr>)"
    by (rule rr_choose_two [OF rr full healthy])
  show ?thesis
    unfolding connPool_first_use [where ch = "lb_chooseHost other", OF known c absent]
    using rr by (simp add: allocateConnPool_def)
qed

lemma rr_reuse:
  assumes known: "thread_local_clusters w name = Some e"
      and rr: "lb_type (lb e) = RoundRobin"
      and full: "hs_hosts (host_set e) = [h1, h2]"
      and healthy: "hs_healthy_hosts (host_set e) = [h1, h2]"
      and present: "host_http_conn_pool_map w ([h1, h2] ! (lb_state (lb e) mod 2))
                      = Some \<lparr>pools = [Some p, None], drains_remaining = 0\<rparr>"
  shows "\<exists>w'. httpConnPoolForCluster (lb_chooseHost other) fe name Default w = (Inr (Some p), w')
         \<and> pools_allocated w' = pools_allocated w"
proof -
  have c: "lb_chooseHost other (lb e) (host_set e) (local_host_set_of w (lb e))
           = (Some ([h1, h2] ! (lb_state (lb e) mod 2)), (lb e)\<lparr>lb_state := lb_state (lb e) + 1\<rparr>)"
    by (rule rr_choose_two [OF rr full healthy])
  have q: "pools \<lparr>pools = [Some p, None], drains_remaining = 0\<rparr> = [Some p, None]"
    by simp
  show ?thesis
    unfolding connPool_reuse [where ch = "lb_chooseHost other", OF known c present q]
    by simp
qed

text \<open>
  C8. A worker knows a round robin cluster whose full and healthy host vectors hold the same
  two hosts, and has no container for either. Three requests for a pool at the default
  priority succeed. The first two return pools of the two hosts in cyclic order from the
  balancer's index, the third returns the very pool of the first request. The first and the
  second request allocate one pool each and the third allocates none: two pools in total.
\<close>

theorem round_robin_two_hosts:
  assumes known: "thread_local_clusters w name = Some e"
      and rr: "lb_type (lb e) = RoundRobin"
      and full: "hs_hosts (host_set e) = [h1, h2]"
      and healthy: "hs_healthy_hosts (host_set e) = [h1, h2]"
      and two: "h1 \<noteq> h2"
      and no1: "host_http_conn_pool_map w h1 = None"
      and no2: "host_http_conn_pool_map w h2 = None"
  shows "\<exists>p1 p2 w1 w2 w3.
           httpConnPoolForCluster (lb_chooseHost other) fe name Default w = (Inr (Some p1), w1)
         \<and> httpConnPoolForCluster (lb_chooseHost other) fe name Default w1 = (Inr (Some p2), w2)
         \<and> httpConnPoolForCluster (lb_chooseHost other) fe name Default w2 = (Inr (Some p1), w3)
         \<and> pool_host p1 = [h1, h2] ! (lb_state (lb e) mod 2)
         \<and> pool_host p2 = [h1, h2] ! (Suc (lb_state (lb e)) mod 2)
         \<and> pool_host p1 \<noteq> pool_host p2
         \<and> pool_addr p1 \<noteq> pool_addr p2
         \<and> pools_allocated w1 = pools_allocated w + 1
         \<and> pools_allocated w2 = pools_allocated w1 + 1
         \<and> pools_allocated w3 = pools_allocated w2
         \<and> pools_allocated w3 = pools_allocated w + 2"
proof -
  define i where "i = lb_state (lb e)"
  define a where "a = [h1, h2] ! (i mod 2)"
  define b where "b = [h1, h2] ! (Suc i mod 2)"
  have ab: "a \<noteq> b"
    using two by (cases "i mod 2 = 0") (simp_all add: a_def b_def mod_Suc)
  have na: "host_http_conn_pool_map w a = None"
    using no1 no2 by (cases "i mod 2 = 0") (simp_all add: a_def)
  have nb: "host_http_conn_pool_map w b = None"
    using no1 no2 by (cases "i mod 2 = 0") (simp_all add: b_def mod_Suc)
  have cyc: "[h1, h2] ! (Suc (Suc i) mod 2) = a"
    by (simp add: a_def)
  from rr_first_use [OF known rr full healthy, of other fe] na
  obtain p1 w1 e1 where
    s1: "httpConnPoolForCluster (lb_chooseHost other) fe name Default w = (Inr (Some p1), w1)"
    and h1: "pool_host p1 = a" and a1: "pool_addr p1 = pools_allocated w"
    and n1: "pools_allocated w1 = pools_allocated w + 1"
    and k1: "thread_local_clusters w1 name = Some e1"
    and t1: "lb_type (lb e1) = RoundRobin" and i1: "lb_state (lb e1) = Suc i"
    and hs1: "host_set e1 = host_set e"
    and m1: "host_http_conn_pool_map w1 = (host_http_conn_pool_map w)
               (a \<mapsto> \<lparr>pools = [Some p1, None], drains_remaining = 0\<rparr>)"
    unfolding a_def i_def by blast
  have nb1: "host_http_conn_pool_map w1 ([h1, h2] ! (lb_state (lb e1) mod 2)) = None"
    using nb ab by (simp add: m1 i1 b_def [symmetric])
  from rr_first_use [OF k1 t1, of h1 h2 other fe] full healthy hs1 nb1
  obtain p2 w2 e2 where
    s2: "httpConnPoolForCluster (lb_chooseHost other) fe name Default w1 = (Inr (Some p2), w2)"
    and h2: "pool_host p2 = b" and a2: "pool_addr p2 = pools_allocated w1"
    and n2: "pools_allocated w2 = pools_allocated w1 + 1"
    and k2: "thread_local_clusters w2 name = Some e2"
    and t2: "lb_type (lb e2) = RoundRobin" and i2: "lb_state (lb e2) = Suc (Suc i)"
    and hs2: "host_set e2 = host_set e"
    and m2: "host_http_conn_pool_map w2 = (host_http_conn_pool_map w1)
               (b \<mapsto> \<lparr>pools = [Some p2, None], drains_remaining = 0\<rparr>)"
    unfolding b_def i1 by auto
  have pa: "host_http_conn_pool_map w2 ([h1, h2] ! (lb_state (lb e2) mod 2))
              = Some \<lparr>pools = [Some p1, None], drains_remaining = 0\<rparr>"
    using ab by (simp only: i2 cyc m2 m1) simp
  from rr_reuse [OF k2 t2, of h1 h2 p1 other fe] full healthy hs2 pa
  obtain w3 where
    s3: "httpConnPoolForCluster (lb_chooseHost other) fe name Default w2 = (Inr (Some p1), w3)"
    and n3: "pools_allocated w3 = pools_allocated w2"
    by auto
  have "pool_host p1 = [h1, h2] ! (lb_state (lb e) mod 2)"
    "pool_host p2 = [h1, h2] ! (Suc (lb_state (lb e)) mod 2)"
    "pool_host p1 \<noteq> pool_host p2" "pool_addr p1 \<noteq> pool_addr p2"
    "pools_allocated w3 = pools_allocated w + 2"
    using h1 h2 ab a1 a2 n1 n2 n3 by (simp_all add: a_def b_def i_def)
  with s1 s2 s3 n1 n2 n3 show ?thesis
    by blast
qed

theorem round_robin_two_hosts_witness:
  "\<exists>p1 p2 w1 w2 w3.
     httpConnPoolForCluster (lb_chooseHost no_host) all_enabled ''c'' Default scenario_worker = (Inr (Some p1), w1)
   \<and> httpConnPoolForCluster (lb_chooseHost no_host) all_enabled ''c'' Default w1 = (Inr (Some p2), w2)
   \<and> httpConnPoolForCluster (lb_chooseHost no_host) all_enabled ''c'' Default w2 = (Inr (Some p1), w3)
   \<and> pool_host p1 = scenario_host1 \<and> pool_host p2 = scenario_host2
   \<and> pools_allocated w3 = 2"
proof -
  have known: "thread_local_clusters scenario_worker ''c'' = Some scenario_entry"
    by (simp add: scenario_worker_def)
  have rr: "lb_type (lb scenario_entry) = RoundRobin"
    and full: "hs_hosts (host_set scenario_entry) = [scenario_host1, scenario_host2]"
    and healthy: "hs_healthy_hosts (host_set scenario_entry) = [scenario_host1, scenario_host2]"
    and start: "lb_state (lb scenario_entry) = 0"
    by (simp_all add: scenario_entry_def)
  have two: "scenario_host1 \<noteq> scenario_host2"
    by (simp add: scenario_host1_def scenario_host2_def)
  have no1: "host_http_conn_pool_map scenario_worker scenario_host1 = None"
    and no2: "host_http_conn_pool_map scenario_worker scenario_host2 = None"
    and zero: "pools_allocated scenario_worker = 0"
    by (simp_all add: scenario_worker_def)
  from round_robin_two_hosts [OF known rr full healthy two no1 no2, of no_host all_enabled]
  obtain p1 p2 w1 w2 w3 where
    "httpConnPoolForCluster (lb_chooseHost no_host) all_enabled ''c'' Default scenario_worker = (Inr (Some p1), w1)"
    "httpConnPoolForCluster (lb_chooseHost no_host) all_enabled ''c'' Default w1 = (Inr (Some p2), w2)"
    "httpConnPoolForCluster (lb_chooseHost no_host) all_enabled ''c'' Default w2 = (Inr (Some p1), w3)"
    "pool_host p1 = [scenario_host1, scenario_host2] ! (lb_state (lb scenario_entry) mod 2)"
    "pool_host p2 = [scenario_host1, scenario_host2] ! (Suc (lb_state (lb scenario_entry)) mod 2)"
    "pools_allocated w3 = pools_allocated scenario_worker + 2"
    by (elim exE conjE) (erule that, assumption+)
  then show ?thesis
    unfolding start zero by (intro exI [of _ p1] exI [of _ p2] exI [of _ w1] exI [of _ w2] exI [of _ w3]) simp
qed
subsection \<open>Loading a configuration\<close>

lemma clusterInitialized_error:
  "clusterInitialized ndebug cm = Inl e \<Longrightarrow> pending_cluster_init cm = 0"
  by (auto simp: clusterInitialized_def Let_def split: if_splits)

lemma clusterInitialized_keeps:
  assumes "clusterInitialized ndebug cm = Inr cm'"
  shows "primary_clusters cm' = primary_clusters cm"
    and "sds_clusters cm' = sds_clusters cm"
    and "sds_config cm' = sds_config cm"
    and "cm_local_cluster_name cm' = cm_local_cluster_name cm"
    and "0 < pending_cluster_init cm \<longrightarrow> pending_cluster_init cm' = pending_cluster_init cm - 1"
  using assms
  by (auto simp: clusterInitialized_def Let_def u32_dec_def split: if_splits)

lemma setInitializedCb_error:
  "setInitializedCb ndebug c cm = Inl e \<Longrightarrow> pending_cluster_init cm = 0"
  by (auto simp: setInitializedCb_def split: if_splits sum.splits dest: clusterInitialized_error)

lemma setInitializedCb_keeps:
  assumes "setInitializedCb ndebug c cm = Inr (c', cm')"
  shows "cluster_info c' = cluster_info c"
    and "primary_clusters cm' = primary_clusters cm"
    and "sds_clusters cm' = sds_clusters cm"
    and "sds_config cm' = sds_config cm"
    and "cm_local_cluster_name cm' = cm_local_cluster_name cm"
    and "0 < pending_cluster_init cm \<longrightarrow> pending_cluster_init cm - 1 \<le> pending_cluster_init cm'"
  using assms clusterInitialized_keeps [of ndebug cm cm']
  by (auto simp: setInitializedCb_def split: if_splits sum.splits)

text \<open>The class and the registry that the first step of \<open>loadCluster\<close> gives.\<close>

lemma loadCluster_error:
  assumes "loadCluster ndebug c cm = Inl e" and "0 < pending_cluster_init cm"
  shows "is_ConfigError e"
proof -
  have "\<And>c' cm1. pending_cluster_init cm1 = pending_cluster_init cm \<Longrightarrow>
      setInitializedCb ndebug c' cm1 \<noteq> Inl e \<or> is_ConfigError e"
    using assms(2) setInitializedCb_error by fastforce
  then have s: "\<And>c' cm1. pending_cluster_init cm1 = pending_cluster_init cm \<Longrightarrow>
      setInitializedCb ndebug c' cm1 = Inl e \<Longrightarrow> is_ConfigError e"
    by blast
  from assms(1) show ?thesis
    by (auto simp: loadCluster_def Let_def split: if_splits option.splits sum.splits prod.splits
        dest: s [rotated])
qed

lemma loadCluster_success:
  assumes "loadCluster ndebug c cm = Inr cm'"
  shows "known_type (cfg_type c)"
    and "cfg_type c = ''sds'' \<longrightarrow> sds_config cm \<noteq> None"
    and "cfg_name c \<notin> fst ` set (primary_clusters cm)"
    and "map fst (primary_clusters cm') = map fst (primary_clusters cm) @ [cfg_name c]"
    and "sds_clusters cm' = sds_clusters cm @ (if cfg_type c = ''sds'' then [cfg_name c] else [])"
    and "sds_config cm' = sds_config cm"
    and "cm_local_cluster_name cm' = cm_local_cluster_name cm"
    and "0 < pending_cluster_init cm \<longrightarrow> pending_cluster_init cm - 1 \<le> pending_cluster_init cm'"
proof -
  define A :: "error + (ClusterImplBase \<times> ClusterManagerImpl)" where "A =
    (if cfg_type c = ''static'' then Inr (new_cluster_of StaticClusterImpl c, cm)
     else if cfg_type c = ''strict_dns'' then Inr (new_cluster_of StrictDnsClusterImpl c, cm)
     else if cfg_type c = ''logical_dns'' then Inr (new_cluster_of LogicalDnsCluster c, cm)
     else if cfg_type c = ''sds'' then
       (if sds_config cm = None then Inl SdsWithoutSdsConfig
        else Inr (new_cluster_of SdsClusterImpl c,
                  cm\<lparr>sds_clusters := sds_clusters cm @ [cfg_name c]\<rparr>))
     else Inl (UnknownClusterType (cfg_type c)))"
  define H :: "ClusterImplBase \<Rightarrow> error + ClusterImplBase" where "H = (\<lambda>c2.
    case cfg_health_check c of
      None \<Rightarrow> Inr c2
    | Some hc_type \<Rightarrow>
        if hc_type = ''http''
        then Inr (c2\<lparr>cluster_health_checker := Some ProdHttpHealthCheckerImpl\<rparr>)
        else if hc_type = ''tcp''
        then Inr (c2\<lparr>cluster_health_checker := Some TcpHealthCheckerImpl\<rparr>)
        else Inl (UnknownHealthCheckType hc_type))"
  have unfold: "loadCluster ndebug c cm =
    (case A of
       Inl e \<Rightarrow> Inl e
     | Inr (nc, cm1) \<Rightarrow>
         if map_of (primary_clusters cm1) (info_name (cluster_info nc)) \<noteq> None
         then Inl (DuplicateCluster (info_name (cluster_info nc)))
         else (case setInitializedCb ndebug nc cm1 of
                 Inl e \<Rightarrow> Inl e
               | Inr (c1, cm2) \<Rightarrow>
                   (case H (c1\<lparr>cluster_member_update_cbs :=
                                cluster_member_update_cbs c1 @ [PostThreadLocalClusterUpdate]\<rparr>) of
                      Inl e \<Rightarrow> Inl e
                    | Inr c3 \<Rightarrow>
                        Inr (cm2\<lparr>primary_clusters := primary_clusters cm2 @
                                   [(info_name (cluster_info c3), c3)]\<rparr>))))"
    unfolding loadCluster_def A_def H_def Let_def ..
  obtain nc cm1 where A: "A = Inr (nc, cm1)"
    using assms unfold by (cases A) auto
  have nodup: "map_of (primary_clusters cm1) (info_name (cluster_info nc)) = None"
    using assms unfold A by (auto split: if_splits)
  obtain c1 cm2 where S: "setInitializedCb ndebug nc cm1 = Inr (c1, cm2)"
    using assms unfold A nodup by (cases "setInitializedCb ndebug nc cm1") auto
  let ?c2 = "c1\<lparr>cluster_member_update_cbs :=
                 cluster_member_update_cbs c1 @ [PostThreadLocalClusterUpdate]\<rparr>"
  obtain c3 where Hc: "H ?c2 = Inr c3"
    using assms unfold A nodup S by (cases "H ?c2") auto
  have res: "cm' = cm2\<lparr>primary_clusters := primary_clusters cm2 @
                          [(info_name (cluster_info c3), c3)]\<rparr>"
    using assms unfold A nodup S Hc by simp
  have info3: "cluster_info c3 = cluster_info c1"
    using Hc by (auto simp: H_def split: option.splits if_splits)
  have kt: "known_type (cfg_type c)"
    and sc: "cfg_type c = ''sds'' \<longrightarrow> sds_config cm \<noteq> None"
    and nc: "info_name (cluster_info nc) = cfg_name c"
    and cm1: "primary_clusters cm1 = primary_clusters cm"
      "sds_clusters cm1 = sds_clusters cm @ (if cfg_type c = ''sds'' then [cfg_name c] else [])"
      "sds_config cm1 = sds_config cm" "cm_local_cluster_name cm1 = cm_local_cluster_name cm"
      "pending_cluster_init cm1 = pending_cluster_init cm"
    using A by (auto simp: A_def known_type_def new_cluster_of_def split: if_splits)
  note k = setInitializedCb_keeps [OF S]
  have name: "info_name (cluster_info c3) = cfg_name c"
    using info3 k(1) nc by simp
  show "known_type (cfg_type c)" by (rule kt)
  show "cfg_type c = ''sds'' \<longrightarrow> sds_config cm \<noteq> None" by (rule sc)
  show "cfg_name c \<notin> fst ` set (primary_clusters cm)"
    using nodup nc cm1(1) by (simp add: map_of_eq_None_iff)
  show "map fst (primary_clusters cm') = map fst (primary_clusters cm) @ [cfg_name c]"
    using res k(2) name cm1(1) by simp
  show "sds_clusters cm' = sds_clusters cm @ (if cfg_type c = ''sds'' then [cfg_name c] else [])"
    using res k(3) cm1(2) by simp
  show "sds_config cm' = sds_config cm"
    using res k(4) cm1(3) by simp
  show "cm_local_cluster_name cm' = cm_local_cluster_name cm"
    using res k(5) cm1(4) by simp
  show "0 < pending_cluster_init cm \<longrightarrow> pending_cluster_init cm - 1 \<le> pending_cluster_init cm'"
    using res k(6) cm1(5) by simp
qed

lemma loadClusters_error:
  "loadClusters ndebug cs cm = Inl e \<Longrightarrow> length cs \<le> pending_cluster_init cm \<Longrightarrow> is_ConfigError e"
proof (induction cs arbitrary: cm)
  case Nil
  then show ?case by simp
next
  case (Cons c cs)
  then have pos: "0 < pending_cluster_init cm" by simp
  show ?case
  proof (cases "loadCluster ndebug c cm")
    case (Inl e1)
    with Cons.prems(1) have "e1 = e" by simp
    with Inl pos show ?thesis by (auto dest: loadCluster_error)
  next
    case (Inr cm1)
    with Cons.prems(1) have rest: "loadClusters ndebug cs cm1 = Inl e" by simp
    from loadCluster_success(8) [OF Inr] pos Cons.prems(2)
    have "length cs \<le> pending_cluster_init cm1" by simp
    from Cons.IH [OF rest this] show ?thesis .
  qed
qed

lemma loadClusters_success:
  "loadClusters ndebug cs cm = Inr cm' \<Longrightarrow>
     (\<forall>c\<in>set cs. known_type (cfg_type c))
   \<and> (sds_config cm = None \<longrightarrow> (\<forall>c\<in>set cs. cfg_type c \<noteq> ''sds''))
   \<and> distinct (map cfg_name cs)
   \<and> set (map cfg_name cs) \<inter> fst ` set (primary_clusters cm) = {}
   \<and> map fst (primary_clusters cm') = map fst (primary_clusters cm) @ map cfg_name cs
   \<and> sds_clusters cm' = sds_clusters cm @ map cfg_name (filter (\<lambda>c. cfg_type c = ''sds'') cs)
   \<and> sds_config cm' = sds_config cm
   \<and> cm_local_cluster_name cm' = cm_local_cluster_name cm"
proof (induction cs arbitrary: cm)
  case Nil
  then show ?case by simp
next
  case (Cons c cs)
  from Cons.prems obtain cm1 where
    one: "loadCluster ndebug c cm = Inr cm1" and rest: "loadClusters ndebug cs cm1 = Inr cm'"
    by (cases "loadCluster ndebug c cm") simp_all
  note f = loadCluster_success [OF one]
  note ih = Cons.IH [OF rest]
  have keys: "fst ` set (primary_clusters cm1) = insert (cfg_name c) (fst ` set (primary_clusters cm))"
  proof -
    have "set (map fst (primary_clusters cm1)) = set (map fst (primary_clusters cm) @ [cfg_name c])"
      by (simp only: f(4))
    then show ?thesis by auto
  qed
  have a: "\<forall>c'\<in>set (c # cs). known_type (cfg_type c')"
    using f(1) ih by simp
  have b: "sds_config cm = None \<longrightarrow> (\<forall>c'\<in>set (c # cs). cfg_type c' \<noteq> ''sds'')"
    using f(2) f(6) ih by auto
  have d: "distinct (map cfg_name (c # cs))"
    using ih keys by auto
  have e: "set (map cfg_name (c # cs)) \<inter> fst ` set (primary_clusters cm) = {}"
    using ih keys f(3) by auto
  have g: "map fst (primary_clusters cm') = map fst (primary_clusters cm) @ map cfg_name (c # cs)"
    using ih f(4) by simp
  have h: "sds_clusters cm' = sds_clusters cm @ map cfg_name (filter (\<lambda>c. cfg_type c = ''sds'') (c # cs))"
    using ih f(5) by simp
  have i: "sds_config cm' = sds_config cm"
    "cm_local_cluster_name cm' = cm_local_cluster_name cm"
    using ih f by simp_all
  from a b d e g h i show ?case by blast
qed

lemma new_error:
  assumes "ClusterManagerImpl_new ndebug config zone tls = Inl e"
  shows "is_ConfigError e"
proof -
  let ?cm0 = "\<lparr>primary_clusters = [], sds_clusters = [], sds_config = None,
                 pending_cluster_init = length (cfg_clusters config),
                 initialized_callback = False, initialized_callback_calls = 0,
                 sds_initialize_calls = [], cm_local_cluster_name = None\<rparr>"
  show ?thesis
  proof (cases "cfg_sds config")
    case None
    have le: "length (cfg_clusters config) \<le> pending_cluster_init ?cm0" by simp
    from assms None show ?thesis
      by (auto simp: ClusterManagerImpl_new_def Let_def split: sum.splits option.splits if_splits
          dest: loadClusters_error [OF _ le])
  next
    case (Some sds)
    let ?cm0' = "?cm0\<lparr>pending_cluster_init := pending_cluster_init ?cm0 + 1\<rparr>"
    have pos: "0 < pending_cluster_init ?cm0'" by simp
    show ?thesis
    proof (cases "loadCluster ndebug (sds_cluster sds) ?cm0'")
      case (Inl e1)
      with assms Some have "e1 = e"
        by (simp add: ClusterManagerImpl_new_def Let_def)
      with Inl pos show ?thesis by (auto dest: loadCluster_error)
    next
      case (Inr cm1)
      let ?cm2 = "cm1\<lparr>sds_config := Some
                   \<lparr>sdsc_local_zone_name = zone,
                    sdsc_sds_cluster_name = cfg_name (sds_cluster sds),
                    sdsc_refresh_delay_ms = sds_refresh_delay_ms sds\<rparr>\<rparr>"
      from loadCluster_success(8) [OF Inr] pos
      have le: "length (cfg_clusters config) \<le> pending_cluster_init ?cm2" by simp
      from assms Some Inr show ?thesis
        by (auto simp: ClusterManagerImpl_new_def Let_def split: sum.splits option.splits if_splits
            dest: loadClusters_error [OF _ le])
    qed
  qed
qed

lemma new_success:
  assumes "ClusterManagerImpl_new ndebug config zone tls = Inr (cm, tls')"
  shows "\<forall>c\<in>set (configured_clusters config). known_type (cfg_type c)"
    and "distinct (map cfg_name (configured_clusters config))"
    and "cfg_sds config = None \<longrightarrow> (\<forall>c\<in>set (cfg_clusters config). cfg_type c \<noteq> ''sds'')"
    and "\<forall>n. cfg_local_cluster_name config = Some n \<longrightarrow> n \<in> set (map cfg_name (configured_clusters config))"
    and "map fst (primary_clusters cm) = map cfg_name (configured_clusters config)"
    and "sds_clusters cm = map cfg_name (filter (\<lambda>c. cfg_type c = ''sds'') (cfg_clusters config))"
    and "cm_local_cluster_name cm = cfg_local_cluster_name config"
proof -
  let ?cm0 = "\<lparr>primary_clusters = [], sds_clusters = [], sds_config = None,
                 pending_cluster_init = length (cfg_clusters config),
                 initialized_callback = False, initialized_callback_calls = 0,
                 sds_initialize_calls = [], cm_local_cluster_name = None\<rparr>"
  have "(\<forall>c\<in>set (configured_clusters config). known_type (cfg_type c))
      \<and> distinct (map cfg_name (configured_clusters config))
      \<and> (cfg_sds config = None \<longrightarrow> (\<forall>c\<in>set (cfg_clusters config). cfg_type c \<noteq> ''sds''))
      \<and> (\<forall>n. cfg_local_cluster_name config = Some n \<longrightarrow> n \<in> set (map cfg_name (configured_clusters config)))
      \<and> map fst (primary_clusters cm) = map cfg_name (configured_clusters config)
      \<and> sds_clusters cm = map cfg_name (filter (\<lambda>c. cfg_type c = ''sds'') (cfg_clusters config))
      \<and> cm_local_cluster_name cm = cfg_local_cluster_name config"
  proof (cases "cfg_sds config")
    case None
    from assms None obtain cm3 where
      l: "loadClusters ndebug (cfg_clusters config) ?cm0 = Inr cm3"
      and loc: "case cfg_local_cluster_name config of
                  None \<Rightarrow> cm = cm3
                | Some n \<Rightarrow> map_of (primary_clusters cm3) n \<noteq> None
                    \<and> cm = cm3\<lparr>cm_local_cluster_name := Some n\<rparr>"
      by (auto simp: ClusterManagerImpl_new_def Let_def split: option.splits sum.splits if_splits)
    note f = loadClusters_success [OF l]
    have fields: "map fst (primary_clusters cm) = map fst (primary_clusters cm3)"
      "sds_clusters cm = sds_clusters cm3"
      "cm_local_cluster_name cm = cfg_local_cluster_name config"
      using loc f by (auto split: option.splits)
    have local: "\<forall>n. cfg_local_cluster_name config = Some n \<longrightarrow> n \<in> set (map fst (primary_clusters cm3))"
      using loc by (auto simp: map_of_eq_None_iff split: option.splits)
    show ?thesis
      using f fields local None loc
      by (auto simp: configured_clusters_def split: option.splits)
  next
    case (Some sds)
    let ?cm0' = "?cm0\<lparr>pending_cluster_init := pending_cluster_init ?cm0 + 1\<rparr>"
    from assms Some obtain cm1 cm3 where
      b: "loadCluster ndebug (sds_cluster sds) ?cm0' = Inr cm1"
      and l: "loadClusters ndebug (cfg_clusters config)
                (cm1\<lparr>sds_config := Some
                   \<lparr>sdsc_local_zone_name = zone,
                    sdsc_sds_cluster_name = cfg_name (sds_cluster sds),
                    sdsc_refresh_delay_ms = sds_refresh_delay_ms sds\<rparr>\<rparr>) = Inr cm3"
      and loc: "case cfg_local_cluster_name config of
                  None \<Rightarrow> cm = cm3
                | Some n \<Rightarrow> map_of (primary_clusters cm3) n \<noteq> None
                    \<and> cm = cm3\<lparr>cm_local_cluster_name := Some n\<rparr>"
      by (auto simp: ClusterManagerImpl_new_def Let_def split: option.splits sum.splits if_splits)
    note g = loadCluster_success [OF b]
    note f = loadClusters_success [OF l]
    have nosds: "cfg_type (sds_cluster sds) \<noteq> ''sds''"
      using g(2) by auto
    have fields: "map fst (primary_clusters cm) = map fst (primary_clusters cm3)"
      "sds_clusters cm = sds_clusters cm3"
      using loc by (auto split: option.splits)
    have lcn: "cm_local_cluster_name cm = cfg_local_cluster_name config"
      using loc f g(7) by (auto split: option.splits)
    have local: "\<forall>n. cfg_local_cluster_name config = Some n \<longrightarrow> n \<in> set (map fst (primary_clusters cm3))"
      using loc by (auto simp: map_of_eq_None_iff split: option.splits)
    have keys1: "map fst (primary_clusters cm1) = [cfg_name (sds_cluster sds)]"
      using g(4) by simp
    have k3: "map fst (primary_clusters cm3) = cfg_name (sds_cluster sds) # map cfg_name (cfg_clusters config)"
      using f keys1 by simp
    have d: "distinct (cfg_name (sds_cluster sds) # map cfg_name (cfg_clusters config))"
    proof -
      have "set (map cfg_name (cfg_clusters config)) \<inter> set (map fst (primary_clusters cm1)) = {}"
        using f by simp
      then show ?thesis using f keys1 by auto
    qed
    show ?thesis
      using f g(1) g(5) nosds fields local Some k3 d lcn
      by (simp add: configured_clusters_def)
  qed
  then show "\<forall>c\<in>set (configured_clusters config). known_type (cfg_type c)"
    and "distinct (map cfg_name (configured_clusters config))"
    and "cfg_sds config = None \<longrightarrow> (\<forall>c\<in>set (cfg_clusters config). cfg_type c \<noteq> ''sds'')"
    and "\<forall>n. cfg_local_cluster_name config = Some n \<longrightarrow> n \<in> set (map cfg_name (configured_clusters config))"
    and "map fst (primary_clusters cm) = map cfg_name (configured_clusters config)"
    and "sds_clusters cm = map cfg_name (filter (\<lambda>c. cfg_type c = ''sds'') (cfg_clusters config))"
    and "cm_local_cluster_name cm = cfg_local_cluster_name config"
    by blast+
qed

text \<open>
  C6. The load of a configuration fails with a configuration error, and so yields no
  cluster manager, whenever one of the configured clusters (the cluster of the SDS
  configuration included) has a type other than static, strict_dns, logical_dns and sds, or
  two of them have the same name, or a cluster of the list has type sds while there is no
  SDS configuration, or the local cluster name is not the name of a configured cluster.
  This holds in a debug build and with assertions compiled out.
\<close>

theorem load_rejects_bad_config:
  assumes "(\<exists>c\<in>set (configured_clusters config). \<not> known_type (cfg_type c))
         \<or> \<not> distinct (map cfg_name (configured_clusters config))
         \<or> (cfg_sds config = None \<and> (\<exists>c\<in>set (cfg_clusters config). cfg_type c = ''sds''))
         \<or> (\<exists>n. cfg_local_cluster_name config = Some n
                \<and> n \<notin> set (map cfg_name (configured_clusters config)))"
  shows "\<exists>e. ClusterManagerImpl_new ndebug config zone tls = Inl e \<and> is_ConfigError e"
proof (cases "ClusterManagerImpl_new ndebug config zone tls")
  case (Inl e)
  then show ?thesis
    using new_error by blast
next
  case (Inr r)
  obtain cm tls' where "r = (cm, tls')" by (cases r)
  with Inr have ok: "ClusterManagerImpl_new ndebug config zone tls = Inr (cm, tls')" by simp
  have False
    using new_success(1-4) [OF ok] assms by auto
  then show ?thesis ..
qed

theorem load_rejects_bad_config_witness:
  "(\<exists>e. ClusterManagerImpl_new False
           (scenario_config\<lparr>cfg_clusters := [\<lparr>cfg_name = ''c'', cfg_type = ''redis'',
              cfg_lb_type = RoundRobin, cfg_features = 0, cfg_hosts = [], cfg_health_check = None\<rparr>]\<rparr>)
           ''zone'' [[]] = Inl e \<and> is_ConfigError e)
   \<and> (\<exists>e. ClusterManagerImpl_new False
           (scenario_config\<lparr>cfg_clusters := cfg_clusters scenario_config @ cfg_clusters scenario_config\<rparr>)
           ''zone'' [[]] = Inl e \<and> is_ConfigError e)
   \<and> (\<exists>e. ClusterManagerImpl_new False (scenario_sds_config\<lparr>cfg_sds := None\<rparr>)
           ''zone'' [[]] = Inl e \<and> is_ConfigError e)
   \<and> (\<exists>e. ClusterManagerImpl_new False (scenario_config\<lparr>cfg_local_cluster_name := Some ''d''\<rparr>)
           ''zone'' [[]] = Inl e \<and> is_ConfigError e)"
proof -
  let ?c1 = "scenario_config\<lparr>cfg_clusters := [\<lparr>cfg_name = ''c'', cfg_type = ''redis'',
              cfg_lb_type = RoundRobin, cfg_features = 0, cfg_hosts = [], cfg_health_check = None\<rparr>]\<rparr>"
  let ?c2 = "scenario_config\<lparr>cfg_clusters := cfg_clusters scenario_config @ cfg_clusters scenario_config\<rparr>"
  let ?c3 = "scenario_sds_config\<lparr>cfg_sds := None\<rparr>"
  let ?c4 = "scenario_config\<lparr>cfg_local_cluster_name := Some ''d''\<rparr>"
  have h1: "\<exists>c\<in>set (configured_clusters ?c1). \<not> known_type (cfg_type c)"
    by (simp add: configured_clusters_def scenario_config_def known_type_def)
  have h2: "\<not> distinct (map cfg_name (configured_clusters ?c2))"
    by (simp add: configured_clusters_def scenario_config_def)
  have h3: "cfg_sds ?c3 = None \<and> (\<exists>c\<in>set (cfg_clusters ?c3). cfg_type c = ''sds'')"
    by (simp add: scenario_sds_config_def)
  have h4: "\<exists>n. cfg_local_cluster_name ?c4 = Some n
                \<and> n \<notin> set (map cfg_name (configured_clusters ?c4))"
    by (simp add: configured_clusters_def scenario_config_def)
  show ?thesis
    using load_rejects_bad_config [of ?c1 False "''zone''" "[[]]"]
      load_rejects_bad_config [of ?c2 False "''zone''" "[[]]"]
      load_rejects_bad_config [of ?c3 False "''zone''" "[[]]"]
      load_rejects_bad_config [of ?c4 False "''zone''" "[[]]"] h1 h2 h3 h4
    by blast
qed
subsection \<open>Initialization of the clusters\<close>

text \<open>
  With a DNS cluster behind the SDS configuration the SDS cluster is started: the load
  leaves the counter at two, the DNS cluster's call brings it down to the number of SDS
  clusters and \<^verbatim>\<open>initialize()\<close> is called on \<open>Q\<close>; the call of \<open>Q\<close> then brings it to zero
  and the registered callback runs.
\<close>

lemma sds_initialized_behind_dns:
  "\<exists>cm cm1 cm2.
      ClusterManagerImpl_new ndebug scenario_sds_config ''zone'' [[]] = Inr (cm, [[]])
    \<and> pending_cluster_init cm = 2 \<and> sds_clusters cm = [''Q'']
    \<and> holds_closure cm = [''D'', ''Q''] \<and> sds_initialize_calls cm = []
    \<and> clusterInitialized ndebug (cm\<lparr>initialized_callback := True\<rparr>) = Inr cm1
    \<and> sds_initialize_calls cm1 = [''Q''] \<and> initialized_callback_calls cm1 = 0
    \<and> clusterInitialized ndebug cm1 = Inr cm2
    \<and> sds_initialize_calls cm2 = [''Q''] \<and> initialized_callback_calls cm2 = 1"
  by (simp add: ClusterManagerImpl_new_def scenario_sds_config_def loadCluster_def Let_def
      setInitializedCb_def clusterInitialized_def u32_dec_def new_cluster_of_def holds_closure_def)

text \<open>
  With a static cluster behind the SDS configuration and the SDS cluster last in the list,
  swapping the two clusters of the list is enough for the SDS cluster to be started, by the
  call of the static cluster \<open>S\<close> inside the load.
\<close>

lemma sds_initialized_when_loaded_first:
  "\<exists>cm. ClusterManagerImpl_new ndebug scenario_static_sds_config_swapped ''zone'' [[]] = Inr (cm, [[]])
    \<and> set (map fst (primary_clusters cm)) = {''D'', ''Q'', ''S''}
    \<and> pending_cluster_init cm = 1 \<and> sds_clusters cm = [''Q'']
    \<and> holds_closure cm = [''Q''] \<and> sds_initialize_calls cm = [''Q'']"
  by (simp add: ClusterManagerImpl_new_def scenario_static_sds_config_swapped_def
      scenario_static_sds_config_def scenario_sds_config_def loadCluster_def Let_def
      setInitializedCb_def clusterInitialized_def u32_dec_def new_cluster_of_def holds_closure_def)

text \<open>
  C3. The configuration with a static cluster \<open>D\<close> behind the SDS configuration, a static
  cluster \<open>S\<close> and an SDS cluster \<open>Q\<close>, loaded in this order: in every build the load
  succeeds, with the counter started at three. The two static clusters call the closure
  inside the load, while \<open>sds_clusters\<close> is still empty, so the counter passes the values
  two and one without the comparison with the number of SDS clusters ever holding. After
  the load the counter equals the number of SDS clusters, \<^verbatim>\<open>initialize()\<close> has been called
  on no cluster, and the only cluster that still holds the closure is \<open>Q\<close>, which calls it
  only after \<^verbatim>\<open>initialize()\<close>: the counter stays at one and the registered callback never
  runs.
\<close>

theorem sds_cluster_never_initialized:
  "\<forall>ndebug. \<exists>cm.
      ClusterManagerImpl_new ndebug scenario_static_sds_config ''zone'' [[]] = Inr (cm, [[]])
    \<and> set (map fst (primary_clusters cm)) = {''D'', ''S'', ''Q''}
    \<and> sds_clusters cm = [''Q'']
    \<and> pending_cluster_init cm = length (sds_clusters cm)
    \<and> sds_initialize_calls cm = []
    \<and> holds_closure cm = [''Q'']
    \<and> initialized_callback_calls cm = 0"
  by (simp add: ClusterManagerImpl_new_def scenario_static_sds_config_def scenario_sds_config_def
      loadCluster_def Let_def setInitializedCb_def clusterInitialized_def u32_dec_def
      new_cluster_of_def holds_closure_def)

subsection \<open>Construction of the worker's entries\<close>

lemma create_entries_created:
  "entries_created (create_entries cs l lhs w) =
     entries_created w @ filter (\<lambda>n. l \<noteq> Some n) (map fst cs)"
  by (induction cs arbitrary: w) auto

lemma create_entries_local:
  "thread_local_clusters (create_entries cs (Some n) lhs w) n = thread_local_clusters w n"
  by (induction cs arbitrary: w) auto

lemma create_entries_lb:
  "thread_local_clusters (create_entries cs l lhs w) m = Some e \<Longrightarrow>
   thread_local_clusters w m = Some e \<or> (l \<noteq> Some m \<and> lb_local_host_set (lb e) = lhs)"
proof (induction cs arbitrary: w)
  case Nil
  then show ?case by simp
next
  case (Cons c cs)
  show ?case
  proof (cases "l = Some (fst c)")
    case True
    with Cons show ?thesis by simp
  next
    case False
    let ?w = "w\<lparr>thread_local_clusters := (thread_local_clusters w)
                 (fst c \<mapsto> ClusterEntry_new (snd c) lhs),
               entries_created := entries_created w @ [fst c]\<rparr>"
    from False Cons.prems have "thread_local_clusters (create_entries cs l lhs ?w) m = Some e"
      by simp
    from Cons.IH [OF this] False show ?thesis
      by (cases "m = fst c")
         (auto simp: ClusterEntry_new_def split: LoadBalancerType.splits)
  qed
qed

lemma create_entries_dom:
  "dom (thread_local_clusters (create_entries cs l lhs w)) =
     dom (thread_local_clusters w) \<union> {m \<in> fst ` set cs. l \<noteq> Some m}"
  by (induction cs arbitrary: w) auto

text \<open>
  C9. In a worker object that the constructor has built: if a local cluster name is given,
  the entry of the local cluster is created first and every other cluster's entry after it,
  the balancer of the local cluster's entry has no local host set, and the balancer of every
  other entry has the host set of the local cluster's entry as its local host set; if no
  local cluster name is given, no balancer has a local host set. The worker has an entry
  for each primary cluster and for nothing else.
\<close>

theorem local_cluster_first:
  assumes built: "ThreadLocalClusterManagerImpl_new parent stats local_cluster_name = Inr w"
  shows "(\<forall>n. local_cluster_name = Some n \<longrightarrow>
            entries_created w = n # filter (\<lambda>m. m \<noteq> n) (map fst (primary_clusters parent))
          \<and> (\<exists>e. thread_local_clusters w n = Some e \<and> lb_local_host_set (lb e) = None)
          \<and> (\<forall>m e. m \<noteq> n \<and> thread_local_clusters w m = Some e \<longrightarrow>
                lb_local_host_set (lb e) = Some n))
       \<and> (local_cluster_name = None \<longrightarrow>
            entries_created w = map fst (primary_clusters parent)
          \<and> (\<forall>m e. thread_local_clusters w m = Some e \<longrightarrow> lb_local_host_set (lb e) = None))
       \<and> dom (thread_local_clusters w) = fst ` set (primary_clusters parent)"
proof (cases local_cluster_name)
  case None
  let ?w0 = "\<lparr>thread_local_clusters = Map.empty, host_http_conn_pool_map = Map.empty,
                 deferred_delete = [], pools_allocated = 0, upstream_cx_none_healthy = stats,
                 entries_created = []\<rparr>"
  let ?w2 = "create_entries (primary_clusters parent) None None ?w0"
  from built None have w: "w = add_purge_callbacks ?w2"
    by (simp add: ThreadLocalClusterManagerImpl_new_def Let_def)
  have a: "entries_created w = map fst (primary_clusters parent)"
    by (simp add: w add_purge_callbacks_def create_entries_created)
  have b: "\<forall>m e. thread_local_clusters w m = Some e \<longrightarrow> lb_local_host_set (lb e) = None"
  proof (intro allI impI)
    fix m e assume "thread_local_clusters w m = Some e"
    then obtain e2 where e2: "thread_local_clusters ?w2 m = Some e2" and "lb e = lb e2"
      by (auto simp: w add_purge_callbacks_def split: option.splits)
    with create_entries_lb [OF e2] show "lb_local_host_set (lb e) = None"
      by simp
  qed
  have c: "dom (thread_local_clusters w) = fst ` set (primary_clusters parent)"
  proof -
    have "dom (thread_local_clusters w) = dom (thread_local_clusters ?w2)"
      by (auto simp: w add_purge_callbacks_def split: option.splits)
    then show ?thesis
      by (simp add: create_entries_dom)
  qed
  from None a b c show ?thesis by simp
next
  case (Some n)
  let ?w0 = "\<lparr>thread_local_clusters = Map.empty, host_http_conn_pool_map = Map.empty,
                 deferred_delete = [], pools_allocated = 0, upstream_cx_none_healthy = stats,
                 entries_created = []\<rparr>"
  from built Some obtain local_cluster where
    found: "map_of (primary_clusters parent) n = Some local_cluster"
    by (cases "map_of (primary_clusters parent) n")
       (simp_all add: ThreadLocalClusterManagerImpl_new_def Let_def)
  let ?w1 = "?w0\<lparr>thread_local_clusters := (thread_local_clusters ?w0)
                     (n \<mapsto> ClusterEntry_new local_cluster None),
                   entries_created := entries_created ?w0 @ [n]\<rparr>"
  let ?w2 = "create_entries (primary_clusters parent) (Some n) (Some n) ?w1"
  from built Some found have w: "w = add_purge_callbacks ?w2"
    by (simp add: ThreadLocalClusterManagerImpl_new_def Let_def)
  have a: "entries_created w = n # filter (\<lambda>m. m \<noteq> n) (map fst (primary_clusters parent))"
  proof -
    have "(\<lambda>m. Some n \<noteq> Some m) = (\<lambda>m. m \<noteq> n)" by auto
    then show ?thesis
      by (simp add: w add_purge_callbacks_def create_entries_created)
  qed
  have l2: "thread_local_clusters ?w2 n = Some (ClusterEntry_new local_cluster None)"
    by (simp add: create_entries_local)
  have b: "\<exists>e. thread_local_clusters w n = Some e \<and> lb_local_host_set (lb e) = None"
    using l2
    by (simp add: w add_purge_callbacks_def ClusterEntry_new_def split: LoadBalancerType.splits)
  have c: "\<forall>m e. m \<noteq> n \<and> thread_local_clusters w m = Some e \<longrightarrow> lb_local_host_set (lb e) = Some n"
  proof (intro allI impI)
    fix m e assume me: "m \<noteq> n \<and> thread_local_clusters w m = Some e"
    then obtain e2 where e2: "thread_local_clusters ?w2 m = Some e2" and "lb e = lb e2"
      by (auto simp: w add_purge_callbacks_def split: option.splits)
    with create_entries_lb [OF e2] me show "lb_local_host_set (lb e) = Some n"
      by simp
  qed
  have d: "dom (thread_local_clusters w) = fst ` set (primary_clusters parent)"
  proof -
    have "dom (thread_local_clusters w) = dom (thread_local_clusters ?w2)"
      by (auto simp: w add_purge_callbacks_def split: option.splits)
    moreover have "n \<in> fst ` set (primary_clusters parent)"
      using found by (metis map_of_eq_None_iff option.distinct(1))
    ultimately show ?thesis
      by (auto simp: create_entries_dom)
  qed
  from Some a b c d show ?thesis by simp
qed

theorem local_cluster_first_witness:
  "\<exists>w ec el. ThreadLocalClusterManagerImpl_new scenario_parent (\<lambda>name. 0) (Some ''l'') = Inr w
      \<and> entries_created w = [''l'', ''c'']
      \<and> thread_local_clusters w ''c'' = Some ec \<and> lb_local_host_set (lb ec) = Some ''l''
      \<and> thread_local_clusters w ''l'' = Some el \<and> lb_local_host_set (lb el) = None"
proof -
  have found: "map_of (primary_clusters scenario_parent) ''l'' = Some scenario_local_primary"
    by (simp add: scenario_parent_def)
  obtain w where built: "ThreadLocalClusterManagerImpl_new scenario_parent (\<lambda>name. 0) (Some ''l'') = Inr w"
    by (simp add: ThreadLocalClusterManagerImpl_new_def Let_def found)
  note t = local_cluster_first [OF built]
  note t1 = t [THEN conjunct1, rule_format, OF refl]
  have keys: "map fst (primary_clusters scenario_parent) = [''c'', ''l'']"
    by (simp add: scenario_parent_def)
  have order: "entries_created w = [''l'', ''c'']"
    using t1 [THEN conjunct1] unfolding keys by simp
  from t1 [THEN conjunct2, THEN conjunct1]
  obtain el where el: "thread_local_clusters w ''l'' = Some el \<and> lb_local_host_set (lb el) = None"
    by (rule exE)
  have "dom (thread_local_clusters w) = set (map fst (primary_clusters scenario_parent))"
    using t [THEN conjunct2, THEN conjunct2] by simp
  then have "''c'' \<in> dom (thread_local_clusters w)"
    unfolding keys by simp
  then obtain ec where ec: "thread_local_clusters w ''c'' = Some ec"
    by (auto simp: dom_def)
  have ne: "''c'' \<noteq> ''l''" by simp
  have "lb_local_host_set (lb ec) = Some ''l''"
    using t1 [THEN conjunct2, THEN conjunct2, rule_format, of "''c''" ec] ne ec by blast
  with built order el ec show ?thesis
    by blast
qed
subsection \<open>Membership updates\<close>

lemma purge_clusters [simp]:
  "thread_local_clusters (purgeConnPools rs w) = thread_local_clusters w"
  by (induction rs arbitrary: w) (auto split: option.split)

lemma member_cbs_clusters [simp]:
  "thread_local_clusters (runMemberUpdateCbs cbs added removed w) = thread_local_clusters w"
  by (induction cbs added removed w rule: runMemberUpdateCbs.induct) simp_all

lemma update_known:
  assumes "thread_local_clusters w (upd_name u) = Some e"
  shows "\<exists>w' e'. updateClusterMembership u w = Inr w'
           \<and> thread_local_clusters w' = (thread_local_clusters w)(upd_name u \<mapsto> e')
           \<and> vectors_of (host_set e') = snapshot_of u"
proof -
  let ?e' = "e\<lparr>host_set := (host_set e)
               \<lparr>hs_hosts := upd_hosts_copy u, hs_healthy_hosts := upd_healthy_hosts_copy u,
                hs_hosts_per_zone := upd_hosts_per_zone_copy u,
                hs_healthy_hosts_per_zone := upd_healthy_hosts_per_zone_copy u\<rparr>\<rparr>"
  let ?w' = "runMemberUpdateCbs (hs_callbacks (host_set e)) (upd_hosts_added u) (upd_hosts_removed u)
               (w\<lparr>thread_local_clusters := (thread_local_clusters w)(upd_name u \<mapsto> ?e')\<rparr>)"
  have "updateClusterMembership u w = Inr ?w'"
    using assms by (simp add: updateClusterMembership_def updateHosts_def)
  moreover have "thread_local_clusters ?w' = (thread_local_clusters w)(upd_name u \<mapsto> ?e')"
    by simp
  moreover have "vectors_of (host_set ?e') = snapshot_of u"
    by (simp add: vectors_of_def snapshot_of_def)
  ultimately show ?thesis
    by blast
qed

lemma update_unknown:
  "thread_local_clusters w (upd_name u) = None \<Longrightarrow> updateClusterMembership u w = Inl AssertionFailed"
  by (simp add: updateClusterMembership_def)

lemma runPosted_vectors:
  "runPosted us w = Inr w' \<Longrightarrow> thread_local_clusters w n = Some e \<Longrightarrow>
   \<exists>e'. thread_local_clusters w' n = Some e'
      \<and> vectors_of (host_set e') =
           (case last_update_for n us of None \<Rightarrow> vectors_of (host_set e) | Some u \<Rightarrow> snapshot_of u)"
proof (induction us arbitrary: w e)
  case Nil
  then show ?case by simp
next
  case (Cons u us)
  from Cons.prems(1) obtain w1 where
    one: "updateClusterMembership u w = Inr w1" and rest: "runPosted us w1 = Inr w'"
    by (cases "updateClusterMembership u w") simp_all
  from one obtain eu where known: "thread_local_clusters w (upd_name u) = Some eu"
    by (cases "thread_local_clusters w (upd_name u)") (simp_all add: update_unknown)
  from update_known [OF known] one obtain e1 where
    m1: "thread_local_clusters w1 = (thread_local_clusters w)(upd_name u \<mapsto> e1)"
    and v1: "vectors_of (host_set e1) = snapshot_of u"
    by auto
  show ?case
  proof (cases "upd_name u = n")
    case True
    then have "thread_local_clusters w1 n = Some e1" using m1 by simp
    from Cons.IH [OF rest this] v1 True show ?thesis
      by (auto split: option.splits)
  next
    case False
    then have "thread_local_clusters w1 n = Some e" using m1 Cons.prems(2) by simp
    from Cons.IH [OF rest this] False show ?thesis
      by (auto split: option.splits)
  qed
qed

lemma runPosted_total:
  "\<forall>u\<in>set us. upd_name u \<in> dom (thread_local_clusters w) \<Longrightarrow> \<exists>w'. runPosted us w = Inr w'"
proof (induction us arbitrary: w)
  case Nil
  then show ?case by simp
next
  case (Cons u us)
  then obtain eu where known: "thread_local_clusters w (upd_name u) = Some eu"
    by auto
  from update_known [OF known] obtain w1 e1 where
    one: "updateClusterMembership u w = Inr w1"
    and m1: "thread_local_clusters w1 = (thread_local_clusters w)(upd_name u \<mapsto> e1)"
    by blast
  have "\<forall>u'\<in>set us. upd_name u' \<in> dom (thread_local_clusters w1)"
    using Cons.prems m1 by auto
  from Cons.IH [OF this] one show ?case
    by simp
qed

text \<open>
  C2. A membership change of a primary cluster posts exactly one closure to every worker;
  the closure carries the cluster's name, its four host vectors as they are at that moment,
  and the added and removed hosts. A worker that knows the clusters named by the closures
  posted to it runs all of them without failure. After a worker has run any sequence of
  posted closures, the four vectors of each of its host sets are the four vectors of one
  single closure, the last one run for that cluster, or the vectors it started with if none
  was run for it: a host set never holds vectors of two different updates.
\<close>

theorem membership_update_atomic:
  "length (postThreadLocalClusterUpdate c added removed tls) = length tls
   \<and> (\<forall>i<length tls. \<exists>u.
         postThreadLocalClusterUpdate c added removed tls ! i = tls ! i @ [u]
       \<and> upd_name u = info_name (cluster_info c)
       \<and> snapshot_of u = (cluster_hosts c, cluster_healthy_hosts c,
                          cluster_hosts_per_zone c, cluster_healthy_hosts_per_zone c)
       \<and> upd_hosts_added u = added \<and> upd_hosts_removed u = removed)
   \<and> (\<forall>us w. (\<forall>u\<in>set us. upd_name u \<in> dom (thread_local_clusters w)) \<longrightarrow>
         (\<exists>w'. runPosted us w = Inr w'))
   \<and> (\<forall>us w w' n e. runPosted us w = Inr w' \<and> thread_local_clusters w n = Some e \<longrightarrow>
         (\<exists>e'. thread_local_clusters w' n = Some e'
            \<and> vectors_of (host_set e') =
                 (case last_update_for n us of
                    None \<Rightarrow> vectors_of (host_set e)
                  | Some u \<Rightarrow> snapshot_of u)))"
proof -
  have a: "length (postThreadLocalClusterUpdate c added removed tls) = length tls"
    by (simp add: postThreadLocalClusterUpdate_def runOnAllThreads_def)
  have b: "\<forall>i<length tls. \<exists>u.
         postThreadLocalClusterUpdate c added removed tls ! i = tls ! i @ [u]
       \<and> upd_name u = info_name (cluster_info c)
       \<and> snapshot_of u = (cluster_hosts c, cluster_healthy_hosts c,
                          cluster_hosts_per_zone c, cluster_healthy_hosts_per_zone c)
       \<and> upd_hosts_added u = added \<and> upd_hosts_removed u = removed"
    by (simp add: postThreadLocalClusterUpdate_def runOnAllThreads_def snapshot_of_def)
  have d: "\<forall>us w. (\<forall>u\<in>set us. upd_name u \<in> dom (thread_local_clusters w)) \<longrightarrow>
         (\<exists>w'. runPosted us w = Inr w')"
    using runPosted_total by blast
  have e: "\<forall>us w w' n e. runPosted us w = Inr w' \<and> thread_local_clusters w n = Some e \<longrightarrow>
         (\<exists>e'. thread_local_clusters w' n = Some e'
            \<and> vectors_of (host_set e') =
                 (case last_update_for n us of
                    None \<Rightarrow> vectors_of (host_set e)
                  | Some u \<Rightarrow> snapshot_of u))"
    using runPosted_vectors by blast
  from a b d e show ?thesis by blast
qed

theorem membership_update_atomic_witness:
  "\<exists>u w' e'.
     postThreadLocalClusterUpdate
       (scenario_primary\<lparr>cluster_hosts := [scenario_host1], cluster_healthy_hosts := [scenario_host1],
          cluster_hosts_per_zone := [[scenario_host1]],
          cluster_healthy_hosts_per_zone := [[scenario_host1]]\<rparr>)
       [] [scenario_host2] [[], []] ! 0 = [] @ [u]
   \<and> runPosted [u] scenario_busy_worker = Inr w'
   \<and> thread_local_clusters w' ''c'' = Some e'
   \<and> vectors_of (host_set e') =
        ([scenario_host1], [scenario_host1], [[scenario_host1]], [[scenario_host1]])"
proof -
  let ?c = "scenario_primary\<lparr>cluster_hosts := [scenario_host1], cluster_healthy_hosts := [scenario_host1],
          cluster_hosts_per_zone := [[scenario_host1]],
          cluster_healthy_hosts_per_zone := [[scenario_host1]]\<rparr>"
  let ?tls = "[[], []] :: ThreadLocalInstance"
  note t = membership_update_atomic [of ?c "[]" "[scenario_host2]" ?tls]
  have i: "0 < length ?tls" by simp
  from t [THEN conjunct2, THEN conjunct1, rule_format, OF i]
  obtain u where
    posted: "postThreadLocalClusterUpdate ?c [] [scenario_host2] ?tls ! 0 = ?tls ! 0 @ [u]"
    and name: "upd_name u = info_name (cluster_info ?c)"
    and snap: "snapshot_of u = (cluster_hosts ?c, cluster_healthy_hosts ?c,
                 cluster_hosts_per_zone ?c, cluster_healthy_hosts_per_zone ?c)"
    by (elim exE conjE)
  have name': "upd_name u = ''c''"
    using name by (simp add: scenario_primary_def new_cluster_of_def scenario_config_def)
  have known: "thread_local_clusters scenario_busy_worker ''c'' = Some scenario_entry"
    by (simp add: scenario_busy_worker_def scenario_worker_def)
  have all_known: "\<forall>u'\<in>set [u]. upd_name u' \<in> dom (thread_local_clusters scenario_busy_worker)"
    using name' known by auto
  from t [THEN conjunct2, THEN conjunct2, THEN conjunct1, THEN spec, THEN spec, THEN mp, OF all_known]
  obtain w' where run: "runPosted [u] scenario_busy_worker = Inr w'"
    by (rule exE)
  have both: "runPosted [u] scenario_busy_worker = Inr w'
      \<and> thread_local_clusters scenario_busy_worker ''c'' = Some scenario_entry"
    using run known by simp
  from t [THEN conjunct2, THEN conjunct2, THEN conjunct2, rule_format, OF both]
  obtain e' where e': "thread_local_clusters w' ''c'' = Some e'"
    and v: "vectors_of (host_set e') =
              (case last_update_for ''c'' [u] of
                 None \<Rightarrow> vectors_of (host_set scenario_entry)
               | Some u \<Rightarrow> snapshot_of u)"
    by (elim exE conjE)
  have "vectors_of (host_set e') =
        ([scenario_host1], [scenario_host1], [[scenario_host1]], [[scenario_host1]])"
    using v snap name' by simp
  with posted run e' show ?thesis
    by auto
qed
subsection \<open>Draining the pools of a removed host\<close>

subsubsection \<open>One call of the purge callback\<close>

lemma count_drains_eq:
  "count_drains ps d = d + length (filter (\<lambda>p. p \<noteq> None) ps)"
  by (induction ps d rule: count_drains.induct) simp_all

lemma register_drains_map:
  "register_drains h ps = map (map_option (addDrainedCallback h)) ps"
  by (induction h ps rule: register_drains.induct) simp_all

lemma set_registered:
  "set (registered_callbacks ps) = (\<Union>pool \<in> {pool. Some pool \<in> set ps}. set (drained_cbs pool))"
  by (induction ps rule: registered_callbacks.induct) auto

lemma registered_Nil_iff:
  "registered_callbacks ps = [] \<longleftrightarrow> (\<forall>pool. Some pool \<in> set ps \<longrightarrow> drained_cbs pool = [])"
  by (induction ps rule: registered_callbacks.induct) auto

lemma nonempty_map_option:
  "length (filter (\<lambda>p. p \<noteq> None) (map (map_option f) ps)) = length (filter (\<lambda>p. p \<noteq> None) ps)"
  by (induction ps) auto

lemma drain_once:
  "pools (drainConnPools h c) = map (map_option (addDrainedCallback h)) (pools c)"
  "drains_remaining (drainConnPools h c) =
     drains_remaining c + length (filter (\<lambda>p. p \<noteq> None) (pools c))"
  by (simp_all add: drainConnPools_def register_drains_map count_drains_eq)

lemma drain_iterated:
  "pools ((drainConnPools h ^^ m) c) =
     map (map_option (\<lambda>p. p\<lparr>drained_cbs := drained_cbs p @ replicate m h\<rparr>)) (pools c)
   \<and> drains_remaining ((drainConnPools h ^^ m) c) =
       drains_remaining c + m * length (filter (\<lambda>p. p \<noteq> None) (pools c))"
proof (induction m)
  case 0
  have "(\<lambda>p::ConnPool. p\<lparr>drained_cbs := drained_cbs p\<rparr>) = (\<lambda>p. p)" by auto
  then show ?case by (simp add: option.map_ident)
next
  case (Suc m)
  define cm where "cm = (drainConnPools h ^^ m) c"
  have ih1: "pools cm =
      map (map_option (\<lambda>p. p\<lparr>drained_cbs := drained_cbs p @ replicate m h\<rparr>)) (pools c)"
    and ih2: "drains_remaining cm =
      drains_remaining c + m * length (filter (\<lambda>p. p \<noteq> None) (pools c))"
    using Suc by (simp_all add: cm_def)
  have s: "(drainConnPools h ^^ Suc m) c = drainConnPools h cm"
    by (simp add: cm_def)
  have step: "\<And>x. map_option (addDrainedCallback h)
        (map_option (\<lambda>p. p\<lparr>drained_cbs := drained_cbs p @ replicate m h\<rparr>) x)
      = map_option (\<lambda>p. p\<lparr>drained_cbs := drained_cbs p @ replicate (Suc m) h\<rparr>) x"
  proof -
    fix x :: "ConnPool option"
    show "map_option (addDrainedCallback h)
        (map_option (\<lambda>p. p\<lparr>drained_cbs := drained_cbs p @ replicate m h\<rparr>) x)
      = map_option (\<lambda>p. p\<lparr>drained_cbs := drained_cbs p @ replicate (Suc m) h\<rparr>) x"
      by (cases x) (simp_all add: addDrainedCallback_def replicate_append_same)
  qed
  have p: "pools (drainConnPools h cm) =
      map (map_option (\<lambda>p. p\<lparr>drained_cbs := drained_cbs p @ replicate (Suc m) h\<rparr>)) (pools c)"
    unfolding drain_once ih1 map_map using step by (simp add: comp_def del: replicate_Suc)
  have len: "length (filter (\<lambda>p. p \<noteq> None) (pools cm)) = length (filter (\<lambda>p. p \<noteq> None) (pools c))"
    unfolding ih1 by (rule nonempty_map_option)
  have d: "drains_remaining (drainConnPools h cm) =
      drains_remaining c + Suc m * length (filter (\<lambda>p. p \<noteq> None) (pools c))"
    unfolding drain_once ih2 len by simp
  from p d show ?case
    unfolding s by (rule conjI)
qed

lemma purge_map:
  "host_http_conn_pool_map (purgeConnPools rs w) h =
     map_option (drainConnPools h ^^ count_list rs h) (host_http_conn_pool_map w h)"
proof (induction rs arbitrary: w)
  case Nil
  then show ?case by (simp add: option.map_ident)
next
  case (Cons r rs)
  show ?case
  proof (cases "host_http_conn_pool_map w r")
    case None
    then show ?thesis
      using Cons.IH [of w] by (cases "r = h") simp_all
  next
    case (Some container)
    let ?w = "w\<lparr>host_http_conn_pool_map :=
                (host_http_conn_pool_map w)(r \<mapsto> drainConnPools r container)\<rparr>"
    show ?thesis
    proof (cases "r = h")
      case True
      with Some show ?thesis
        using Cons.IH [of ?w] by (simp add: funpow_swap1)
    next
      case False
      with Some show ?thesis
        using Cons.IH [of ?w] by simp
    qed
  qed
qed

lemma purge_deferred_delete [simp]:
  "deferred_delete (purgeConnPools rs w) = deferred_delete w"
  by (induction rs arbitrary: w) (auto split: option.split)

lemma member_cbs_deferred_delete [simp]:
  "deferred_delete (runMemberUpdateCbs cbs added removed w) = deferred_delete w"
  by (induction cbs added removed w rule: runMemberUpdateCbs.induct) simp_all

lemma runDrainedCallbacks_append:
  "runDrainedCallbacks ndebug (xs @ ys) w =
     (case runDrainedCallbacks ndebug xs w of
        Inl e \<Rightarrow> Inl e
      | Inr w' \<Rightarrow> runDrainedCallbacks ndebug ys w')"
  by (induction xs arbitrary: w) (simp_all split: sum.split)

lemma callbacks_before_last:
  "host_http_conn_pool_map w h = Some c \<Longrightarrow> k < drains_remaining c \<Longrightarrow>
   \<exists>w'. runDrainedCallbacks ndebug (replicate k h) w = Inr w'
       \<and> host_http_conn_pool_map w' h = Some (c\<lparr>drains_remaining := drains_remaining c - k\<rparr>)
       \<and> deferred_delete w' = deferred_delete w"
proof (induction k arbitrary: w c)
  case 0
  then show ?case by simp
next
  case (Suc k)
  let ?c' = "c\<lparr>drains_remaining := drains_remaining c - 1\<rparr>"
  let ?w' = "w\<lparr>host_http_conn_pool_map := (host_http_conn_pool_map w)(h \<mapsto> ?c')\<rparr>"
  from Suc.prems have step: "drainedCallback ndebug h w = Inr ?w'"
    by (simp add: drainedCallback_def Let_def u32_dec_def)
  have "host_http_conn_pool_map ?w' h = Some ?c'" "k < drains_remaining ?c'"
    using Suc.prems by simp_all
  from Suc.IH [OF this] step show ?case
    by simp
qed

lemma callbacks_all:
  assumes a: "host_http_conn_pool_map w h = Some c" and pos: "0 < drains_remaining c"
  shows "\<exists>w'. runDrainedCallbacks ndebug (replicate (drains_remaining c) h) w = Inr w'
       \<and> host_http_conn_pool_map w' h = None
       \<and> deferred_delete w' = deferred_delete w @ pools c"
proof -
  define k where "k = drains_remaining c - 1"
  then have n: "drains_remaining c = Suc k" and lt: "k < drains_remaining c"
    using pos by simp_all
  from callbacks_before_last [OF a lt] obtain w1 where
    r: "runDrainedCallbacks ndebug (replicate k h) w = Inr w1"
    and m: "host_http_conn_pool_map w1 h = Some (c\<lparr>drains_remaining := drains_remaining c - k\<rparr>)"
    and d: "deferred_delete w1 = deferred_delete w"
    by blast
  have "replicate (drains_remaining c) h = replicate k h @ [h]"
    using n by (simp add: replicate_append_same)
  then have "runDrainedCallbacks ndebug (replicate (drains_remaining c) h) w
      = runDrainedCallbacks ndebug [h] w1"
    using r by (simp add: runDrainedCallbacks_append)
  moreover have "drainedCallback ndebug h w1 =
      Inr (w1\<lparr>deferred_delete := deferred_delete w1 @ pools c,
               host_http_conn_pool_map := (host_http_conn_pool_map w1)(h := None)\<rparr>)"
    using m n by (simp add: drainedCallback_def Let_def u32_dec_def)
  ultimately show ?thesis
    using d by simp
qed

lemma worker_run_append:
  "worker_run ndebug ch fe (xs @ ys) w =
     (case worker_run ndebug ch fe xs w of
        Inl e \<Rightarrow> Inl e
      | Inr w' \<Rightarrow> worker_run ndebug ch fe ys w')"
  by (induction xs arbitrary: w) (simp_all split: sum.split)

subsubsection \<open>The reports of a draining container\<close>

lemma nonempty_take_le:
  "length (filter P (take j ps)) \<le> length (filter P ps)"
proof -
  have "length (filter P ps) = length (filter P (take j ps)) + length (filter P (drop j ps))"
    by (metis append_take_drop_id filter_append length_append)
  then show ?thesis by simp
qed

lemma reports_prefix:
  fixes c1 :: ConnPoolsContainer
  assumes present: "host_http_conn_pool_map w1 h = Some c1"
      and cbs: "\<forall>p. Some p \<in> set (pools c1) \<longrightarrow> drained_cbs p = replicate m h"
      and cnt: "drains_remaining c1 = m * length (filter (\<lambda>p. p \<noteq> None) (pools c1))"
      and m: "0 < m"
      and n: "0 < length (filter (\<lambda>p. p \<noteq> None) (pools c1))"
  shows "j \<le> length (pools c1) \<Longrightarrow>
    \<exists>wj. worker_run ndebug ch fe (map (PoolDrained h) [0..<j]) w1 = Inr wj
      \<and> (if length (filter (\<lambda>p. p \<noteq> None) (take j (pools c1)))
              < length (filter (\<lambda>p. p \<noteq> None) (pools c1))
         then host_http_conn_pool_map wj h =
                Some (c1\<lparr>drains_remaining :=
                        m * (length (filter (\<lambda>p. p \<noteq> None) (pools c1))
                             - length (filter (\<lambda>p. p \<noteq> None) (take j (pools c1))))\<rparr>)
            \<and> deferred_delete wj = deferred_delete w1
         else host_http_conn_pool_map wj h = None
            \<and> deferred_delete wj = deferred_delete w1 @ pools c1)"
proof (induction j)
  case 0
  have "c1\<lparr>drains_remaining := m * length (filter (\<lambda>p. p \<noteq> None) (pools c1))\<rparr> = c1"
    using cnt by simp
  with present n show ?case by simp
next
  case (Suc j)
  define ps where "ps = pools c1"
  define n where "n = length (filter (\<lambda>p. p \<noteq> None) ps)"
  define k where "k = length (filter (\<lambda>p. p \<noteq> None) (take j ps))"
  define k' where "k' = length (filter (\<lambda>p. p \<noteq> None) (take (Suc j) ps))"
  from Suc.prems have j: "j < length ps" by (simp add: ps_def)
  have k'_le: "k' \<le> n"
    unfolding k'_def n_def by (rule nonempty_take_le)
  have k': "k' = k + (if ps ! j \<noteq> None then 1 else 0)"
    using j by (simp add: k'_def k_def take_Suc_conv_app_nth)
  from Suc.IH j obtain wj where
    run: "worker_run ndebug ch fe (map (PoolDrained h) [0..<j]) w1 = Inr wj"
    and st: "if k < n
         then host_http_conn_pool_map wj h = Some (c1\<lparr>drains_remaining := m * (n - k)\<rparr>)
            \<and> deferred_delete wj = deferred_delete w1
         else host_http_conn_pool_map wj h = None
            \<and> deferred_delete wj = deferred_delete w1 @ ps"
    unfolding ps_def n_def k_def by auto
  have next_run: "worker_run ndebug ch fe (map (PoolDrained h) [0..<Suc j]) w1
      = poolDrained ndebug h j wj"
    using run by (simp add: worker_run_append split: sum.split)
  have "\<exists>w'. poolDrained ndebug h j wj = Inr w'
      \<and> (if k' < n
         then host_http_conn_pool_map w' h = Some (c1\<lparr>drains_remaining := m * (n - k')\<rparr>)
            \<and> deferred_delete w' = deferred_delete w1
         else host_http_conn_pool_map w' h = None
            \<and> deferred_delete w' = deferred_delete w1 @ ps)"
  proof (cases "ps ! j")
    case None
    then have same: "k' = k" using k' by simp
    have "poolDrained ndebug h j wj = Inr wj"
      using st None j by (auto simp: poolDrained_def ps_def split: if_splits)
    with st same show ?thesis by simp
  next
    case (Some p)
    then have suc: "k' = Suc k" using k' by simp
    with k'_le have lt: "k < n" by simp
    let ?c = "c1\<lparr>drains_remaining := m * (n - k)\<rparr>"
    from st lt have here: "host_http_conn_pool_map wj h = Some ?c"
      and dd: "deferred_delete wj = deferred_delete w1"
      by simp_all
    have "Some p \<in> set (pools c1)"
      using Some j by (metis nth_mem ps_def)
    with cbs have p: "drained_cbs p = replicate m h" by simp
    have pd: "poolDrained ndebug h j wj = runDrainedCallbacks ndebug (replicate m h) wj"
      using here Some j p by (simp add: poolDrained_def ps_def)
    show ?thesis
    proof (cases "k' < n")
      case True
      then have "m < drains_remaining ?c"
        using m suc by simp
      from callbacks_before_last [OF here this, of ndebug] obtain w' where
        r: "runDrainedCallbacks ndebug (replicate m h) wj = Inr w'"
        and c: "host_http_conn_pool_map w' h = Some (?c\<lparr>drains_remaining := drains_remaining ?c - m\<rparr>)"
        and d: "deferred_delete w' = deferred_delete wj"
        by blast
      have "m * (n - k) - m = m * (n - k')"
        using suc by (simp add: diff_mult_distrib2)
      with c have "host_http_conn_pool_map w' h = Some (c1\<lparr>drains_remaining := m * (n - k')\<rparr>)"
        by simp
      with r d dd pd True show ?thesis by simp
    next
      case False
      with k'_le suc have "n - k = 1" by simp
      then have dr: "drains_remaining ?c = m" and pos: "0 < drains_remaining ?c"
        using m by simp_all
      from callbacks_all [OF here pos, of ndebug] dr obtain w' where
        r: "runDrainedCallbacks ndebug (replicate m h) wj = Inr w'"
        and c: "host_http_conn_pool_map w' h = None"
        and d: "deferred_delete w' = deferred_delete wj @ pools ?c"
        by auto
      with dd pd False show ?thesis by (simp add: ps_def)
    qed
  qed
  with next_run show ?case
    unfolding ps_def n_def k'_def by simp
qed

subsubsection \<open>Requests\<close>

lemma httpConnPool_subscribers:
  "subscribers (snd (httpConnPoolForCluster ch fe name p w)) = subscribers w"
  by (auto simp: subscribers_def fun_eq_iff httpConnPoolForCluster_def connPool_def Let_def
      split: option.splits prod.splits)

lemma tcpConn_subscribers:
  "subscribers (snd (tcpConnForCluster ch name w)) = subscribers w"
  by (auto simp: subscribers_def fun_eq_iff tcpConnForCluster_def
      split: option.splits prod.splits)

lemma tcpConn_map:
  "host_http_conn_pool_map (snd (tcpConnForCluster ch name w)) = host_http_conn_pool_map w"
  by (auto simp: tcpConnForCluster_def split: option.splits prod.splits)

lemma connPool_container:
  assumes ok: "fst (connPool ch fe name entry p w) \<noteq> Inl AssertionFailed"
  shows "host_http_conn_pool_map (snd (connPool ch fe name entry p w)) h = host_http_conn_pool_map w h
       \<or> (\<exists>c'. host_http_conn_pool_map (snd (connPool ch fe name entry p w)) h = Some c'
             \<and> drains_remaining c' =
                 drains_remaining (case host_http_conn_pool_map w h of
                                     None \<Rightarrow> new_ConnPoolsContainer | Some c \<Rightarrow> c)
             \<and> (\<exists>pool. Some pool \<in> set (pools c'))
             \<and> (\<forall>q. Some q \<in> set (pools c') \<longrightarrow>
                   Some q \<in> set (pools (case host_http_conn_pool_map w h of
                                           None \<Rightarrow> new_ConnPoolsContainer | Some c \<Rightarrow> c))
                 \<or> drained_cbs q = []))"
proof (cases "ch (lb entry) (host_set entry) (local_host_set_of w (lb entry))")
  case (Pair chosen b')
  show ?thesis
  proof (cases chosen)
    case None
    with Pair show ?thesis by (simp add: connPool_def)
  next
    case (Some host)
    define c0 where "c0 = (case host_http_conn_pool_map w host of
                             None \<Rightarrow> new_ConnPoolsContainer | Some c \<Rightarrow> c)"
    define i where "i = enumToInt p"
    from ok Pair Some have i: "i < length (pools c0)"
      by (auto simp: connPool_def Let_def c0_def i_def split: if_splits)
    show ?thesis
    proof (cases "host = h")
      case False
      with Pair Some i show ?thesis
        by (auto simp: connPool_def Let_def c0_def i_def split: option.splits)
    next
      case True
      show ?thesis
      proof (cases "pools c0 ! i")
        case filled: (Some pool)
        then have "host_http_conn_pool_map (snd (connPool ch fe name entry p w)) h = Some c0"
          using Pair Some i True by (simp add: connPool_def Let_def c0_def i_def)
        moreover have "Some pool \<in> set (pools c0)"
          using filled i by (metis nth_mem)
        ultimately show ?thesis
          using True by (auto simp: c0_def)
      next
        case None
        let ?pool = "allocateConnPool fe host p (pools_allocated w)"
        let ?c' = "c0\<lparr>pools := (pools c0)[i := Some ?pool]\<rparr>"
        have m: "host_http_conn_pool_map (snd (connPool ch fe name entry p w)) h = Some ?c'"
          using Pair Some i True None by (simp add: connPool_def Let_def c0_def i_def)
        have fresh: "drained_cbs ?pool = []"
          by (simp add: allocateConnPool_def)
        have mem: "Some ?pool \<in> set (pools ?c')"
          using i by (simp add: set_update_memI)
        have old: "\<forall>q. Some q \<in> set (pools ?c') \<longrightarrow> Some q \<in> set (pools c0) \<or> drained_cbs q = []"
        proof (intro allI impI)
          fix q assume "Some q \<in> set (pools ?c')"
          then have "Some q \<in> insert (Some ?pool) (set (pools c0))"
            using set_update_subset_insert [of "pools c0" i "Some ?pool"] by auto
          with fresh show "Some q \<in> set (pools c0) \<or> drained_cbs q = []" by auto
        qed
        from m mem old True show ?thesis
          by (auto simp: c0_def)
      qed
    qed
  qed
qed

lemma httpConnPool_container:
  assumes ok: "fst (httpConnPoolForCluster ch fe name p w) \<noteq> Inl AssertionFailed"
  shows "host_http_conn_pool_map (snd (httpConnPoolForCluster ch fe name p w)) h
           = host_http_conn_pool_map w h
       \<or> (\<exists>c'. host_http_conn_pool_map (snd (httpConnPoolForCluster ch fe name p w)) h = Some c'
             \<and> drains_remaining c' =
                 drains_remaining (case host_http_conn_pool_map w h of
                                     None \<Rightarrow> new_ConnPoolsContainer | Some c \<Rightarrow> c)
             \<and> (\<exists>pool. Some pool \<in> set (pools c'))
             \<and> (\<forall>q. Some q \<in> set (pools c') \<longrightarrow>
                   Some q \<in> set (pools (case host_http_conn_pool_map w h of
                                           None \<Rightarrow> new_ConnPoolsContainer | Some c \<Rightarrow> c))
                 \<or> drained_cbs q = []))"
proof (cases "thread_local_clusters w name")
  case None
  then show ?thesis by (simp add: httpConnPoolForCluster_def)
next
  case (Some entry)
  with ok have "fst (connPool ch fe name entry p w) \<noteq> Inl AssertionFailed"
    by (simp add: httpConnPoolForCluster_def)
  from connPool_container [OF this, of h] Some show ?thesis
    by (simp add: httpConnPoolForCluster_def)
qed

lemma default_container:
  "drains_remaining new_ConnPoolsContainer = 0"
  "registered_callbacks (pools new_ConnPoolsContainer) = []"
  by (simp_all add: new_ConnPoolsContainer_def registered_Nil_iff)

lemma httpConnPool_owned:
  assumes ok: "fst (httpConnPoolForCluster ch fe name p w) \<noteq> Inl AssertionFailed"
      and owned: "callbacks_owned w"
  shows "callbacks_owned (snd (httpConnPoolForCluster ch fe name p w))"
  unfolding callbacks_owned_def
proof (intro allI impI)
  fix h c assume c: "host_http_conn_pool_map (snd (httpConnPoolForCluster ch fe name p w)) h = Some c"
  define c0 where "c0 = (case host_http_conn_pool_map w h of
                           None \<Rightarrow> new_ConnPoolsContainer | Some c \<Rightarrow> c)"
  have c0: "set (registered_callbacks (pools c0)) \<subseteq> {h}"
    using owned by (auto simp: c0_def callbacks_owned_def default_container split: option.splits)
  have "host_http_conn_pool_map w h = Some c
      \<or> (\<forall>q. Some q \<in> set (pools c) \<longrightarrow> Some q \<in> set (pools c0) \<or> drained_cbs q = [])"
    using httpConnPool_container [OF ok, of h] c unfolding c0_def by auto
  then show "set (registered_callbacks (pools c)) \<subseteq> {h}"
  proof (elim disjE)
    assume "host_http_conn_pool_map w h = Some c"
    with owned show ?thesis by (simp add: callbacks_owned_def)
  next
    assume "\<forall>q. Some q \<in> set (pools c) \<longrightarrow> Some q \<in> set (pools c0) \<or> drained_cbs q = []"
    with c0 show ?thesis
      by (fastforce simp: set_registered)
  qed
qed

lemma httpConnPool_not_draining:
  assumes ok: "fst (httpConnPoolForCluster ch fe name p w) \<noteq> Inl AssertionFailed"
      and nd: "not_draining h w"
  shows "not_draining h (snd (httpConnPoolForCluster ch fe name p w))"
  unfolding not_draining_def
proof (intro allI impI)
  fix c assume c: "host_http_conn_pool_map (snd (httpConnPoolForCluster ch fe name p w)) h = Some c"
  define c0 where "c0 = (case host_http_conn_pool_map w h of
                           None \<Rightarrow> new_ConnPoolsContainer | Some c \<Rightarrow> c)"
  have c0: "drains_remaining c0 = 0" "registered_callbacks (pools c0) = []"
    using nd by (auto simp: c0_def not_draining_def default_container split: option.splits)
  have "host_http_conn_pool_map w h = Some c
      \<or> (drains_remaining c = drains_remaining c0 \<and> (\<exists>pool. Some pool \<in> set (pools c))
         \<and> (\<forall>q. Some q \<in> set (pools c) \<longrightarrow> Some q \<in> set (pools c0) \<or> drained_cbs q = []))"
    using httpConnPool_container [OF ok, of h] c unfolding c0_def by auto
  then show "drains_remaining c = 0 \<and> registered_callbacks (pools c) = []
      \<and> (\<exists>pool. Some pool \<in> set (pools c))"
  proof (elim disjE)
    assume "host_http_conn_pool_map w h = Some c"
    with nd show ?thesis by (simp add: not_draining_def)
  next
    assume "drains_remaining c = drains_remaining c0 \<and> (\<exists>pool. Some pool \<in> set (pools c))
         \<and> (\<forall>q. Some q \<in> set (pools c) \<longrightarrow> Some q \<in> set (pools c0) \<or> drained_cbs q = [])"
    with c0 show ?thesis
      by (auto simp: registered_Nil_iff)
  qed
qed

subsubsection \<open>A membership update\<close>

lemma member_cbs_map:
  "host_http_conn_pool_map (runMemberUpdateCbs cbs added removed w) h =
     map_option (drainConnPools h ^^ (length cbs * count_list removed h))
       (host_http_conn_pool_map w h)"
proof (induction cbs added removed w rule: runMemberUpdateCbs.induct)
  case (1 hosts_added hosts_removed w)
  then show ?case by (simp add: option.map_ident)
next
  case (2 cbs hosts_added hosts_removed w)
  let ?k = "count_list hosts_removed h"
  have split: "\<And>x. (drainConnPools h ^^ (length cbs * ?k + ?k)) x
      = (drainConnPools h ^^ (length cbs * ?k)) ((drainConnPools h ^^ ?k) x)"
    by (simp add: funpow_add)
  have "host_http_conn_pool_map
          (runMemberUpdateCbs (PurgeConnPools # cbs) hosts_added hosts_removed w) h
      = map_option (drainConnPools h ^^ (length cbs * ?k))
          (map_option (drainConnPools h ^^ ?k) (host_http_conn_pool_map w h))"
    using 2 by (simp add: purge_map)
  also have "\<dots> = map_option (drainConnPools h ^^ (length cbs * ?k + ?k))
          (host_http_conn_pool_map w h)"
    by (cases "host_http_conn_pool_map w h") (simp_all only: option.map split)
  finally show ?case by (simp add: add.commute)
qed

lemma update_effect:
  assumes known: "thread_local_clusters w (upd_name u) = Some e"
  shows "\<exists>w'. updateClusterMembership u w = Inr w'
       \<and> subscribers w' = subscribers w
       \<and> deferred_delete w' = deferred_delete w
       \<and> (\<forall>h. host_http_conn_pool_map w' h =
               map_option (drainConnPools h ^^
                   (length (hs_callbacks (host_set e)) * count_list (upd_hosts_removed u) h))
                 (host_http_conn_pool_map w h))"
proof -
  define w' where "w' = updateHosts (upd_name u) e (upd_hosts_copy u) (upd_healthy_hosts_copy u)
                 (upd_hosts_per_zone_copy u) (upd_healthy_hosts_per_zone_copy u)
                 (upd_hosts_added u) (upd_hosts_removed u) w"
  have run: "updateClusterMembership u w = Inr w'"
    using known by (simp add: updateClusterMembership_def w'_def)
  have subs: "subscribers w' = subscribers w"
  proof (rule ext)
    fix n show "subscribers w' n = subscribers w n"
      using known by (cases "n = upd_name u") (simp_all add: subscribers_def w'_def updateHosts_def)
  qed
  have dd: "deferred_delete w' = deferred_delete w"
    by (simp add: w'_def updateHosts_def)
  have m: "\<forall>h. host_http_conn_pool_map w' h =
               map_option (drainConnPools h ^^
                   (length (hs_callbacks (host_set e)) * count_list (upd_hosts_removed u) h))
                 (host_http_conn_pool_map w h)"
    by (simp add: w'_def updateHosts_def member_cbs_map)
  from run subs dd m show ?thesis by blast
qed

lemma drain_iterated_owned:
  assumes "set (registered_callbacks (pools c)) \<subseteq> {h}"
  shows "set (registered_callbacks (pools ((drainConnPools h ^^ t) c))) \<subseteq> {h}"
proof
  fix x assume "x \<in> set (registered_callbacks (pools ((drainConnPools h ^^ t) c)))"
  then obtain q where q: "Some q \<in> set (pools ((drainConnPools h ^^ t) c))"
    and x: "x \<in> set (drained_cbs q)"
    unfolding set_registered by blast
  note ps = drain_iterated [where h = h and m = t and c = c, THEN conjunct1]
  from q obtain p where p: "p \<in> set (pools c)"
    and qp: "Some q = map_option (\<lambda>p. p\<lparr>drained_cbs := drained_cbs p @ replicate t h\<rparr>) p"
    unfolding ps set_map image_iff by blast
  from qp obtain p0 where p0: "p = Some p0"
    and q0: "q = p0\<lparr>drained_cbs := drained_cbs p0 @ replicate t h\<rparr>"
    by (cases p) simp_all
  from p p0 have "set (drained_cbs p0) \<subseteq> set (registered_callbacks (pools c))"
    unfolding set_registered by blast
  with assms have "set (drained_cbs p0) \<subseteq> {h}" by blast
  with x q0 show "x \<in> {h}" by auto
qed

lemma update_owned:
  assumes "updateClusterMembership u w = Inr w'" and owned: "callbacks_owned w"
  shows "callbacks_owned w'"
proof -
  from assms(1) obtain e where known: "thread_local_clusters w (upd_name u) = Some e"
    by (cases "thread_local_clusters w (upd_name u)") (simp_all add: update_unknown)
  from update_effect [OF known] assms(1)
  have m: "\<forall>h. host_http_conn_pool_map w' h =
               map_option (drainConnPools h ^^
                   (length (hs_callbacks (host_set e)) * count_list (upd_hosts_removed u) h))
                 (host_http_conn_pool_map w h)"
    by auto
  show ?thesis
    unfolding callbacks_owned_def
  proof (intro allI impI)
    fix h c assume "host_http_conn_pool_map w' h = Some c"
    with m obtain c0 where c0: "host_http_conn_pool_map w h = Some c0"
      and c: "c = (drainConnPools h ^^
                   (length (hs_callbacks (host_set e)) * count_list (upd_hosts_removed u) h)) c0"
      by (cases "host_http_conn_pool_map w h") auto
    from owned c0 have "set (registered_callbacks (pools c0)) \<subseteq> {h}"
      by (simp add: callbacks_owned_def)
    then show "set (registered_callbacks (pools c)) \<subseteq> {h}"
      unfolding c by (rule drain_iterated_owned)
  qed
qed

lemma update_not_draining:
  assumes "updateClusterMembership u w = Inr w'" and nd: "not_draining h w"
      and none: "count_list (upd_hosts_removed u) h = 0"
  shows "not_draining h w'"
proof -
  from assms(1) obtain e where known: "thread_local_clusters w (upd_name u) = Some e"
    by (cases "thread_local_clusters w (upd_name u)") (simp_all add: update_unknown)
  from update_effect [OF known] assms(1) none
  have "host_http_conn_pool_map w' h = host_http_conn_pool_map w h"
    by (auto simp: option.map_id)
  with nd show ?thesis by (simp add: not_draining_def)
qed

subsubsection \<open>Pools reporting drained\<close>

lemma drainedCallback_effect:
  assumes "drainedCallback ndebug h' w = Inr w'"
  shows "thread_local_clusters w' = thread_local_clusters w"
    and "x \<noteq> h' \<Longrightarrow> host_http_conn_pool_map w' x = host_http_conn_pool_map w x"
    and "host_http_conn_pool_map w' h' = None
       \<or> (\<exists>c'. host_http_conn_pool_map w' h' = Some c'
             \<and> pools c' = pools (case host_http_conn_pool_map w h' of
                                  None \<Rightarrow> new_ConnPoolsContainer | Some c \<Rightarrow> c))"
  using assms
  by (auto simp: drainedCallback_def Let_def split: if_splits)

lemma drainedCallback_owned:
  assumes step: "drainedCallback ndebug h' w = Inr w'" and owned: "callbacks_owned w"
  shows "callbacks_owned w'"
  unfolding callbacks_owned_def
proof (intro allI impI)
  fix h c assume c: "host_http_conn_pool_map w' h = Some c"
  show "set (registered_callbacks (pools c)) \<subseteq> {h}"
  proof (cases "h = h'")
    case False
    with drainedCallback_effect(2) [OF step, of h] c owned show ?thesis
      by (simp add: callbacks_owned_def)
  next
    case True
    with drainedCallback_effect(3) [OF step] c
    have "pools c = pools (case host_http_conn_pool_map w h of
                             None \<Rightarrow> new_ConnPoolsContainer | Some c \<Rightarrow> c)"
      by auto
    with owned show ?thesis
      by (auto simp: callbacks_owned_def default_container split: option.splits)
  qed
qed

lemma run_callbacks_effect:
  "runDrainedCallbacks ndebug cbs w = Inr w' \<Longrightarrow>
     thread_local_clusters w' = thread_local_clusters w
   \<and> (callbacks_owned w \<longrightarrow> callbacks_owned w')
   \<and> (\<forall>x. x \<notin> set cbs \<longrightarrow> host_http_conn_pool_map w' x = host_http_conn_pool_map w x)"
proof (induction cbs arbitrary: w)
  case Nil
  then show ?case by simp
next
  case (Cons cb cbs)
  from Cons.prems obtain w1 where
    one: "drainedCallback ndebug cb w = Inr w1" and rest: "runDrainedCallbacks ndebug cbs w1 = Inr w'"
    by (cases "drainedCallback ndebug cb w") simp_all
  from Cons.IH [OF rest] drainedCallback_effect(1,2) [OF one] drainedCallback_owned [OF one]
  show ?case by auto
qed

lemma poolDrained_effect:
  assumes step: "poolDrained ndebug host i w = Inr w'" and owned: "callbacks_owned w"
  shows "thread_local_clusters w' = thread_local_clusters w"
    and "callbacks_owned w'"
    and "x \<noteq> host \<Longrightarrow> host_http_conn_pool_map w' x = host_http_conn_pool_map w x"
    and "not_draining host w \<Longrightarrow> w' = w"
proof -
  have "thread_local_clusters w' = thread_local_clusters w \<and> callbacks_owned w'
      \<and> (\<forall>x. x \<noteq> host \<longrightarrow> host_http_conn_pool_map w' x = host_http_conn_pool_map w x)
      \<and> (not_draining host w \<longrightarrow> w' = w)"
  proof (cases "host_http_conn_pool_map w host")
    case None
    with step owned show ?thesis by (simp add: poolDrained_def)
  next
    case (Some c)
    show ?thesis
    proof (cases "i < length (pools c)")
      case False
      with step owned Some show ?thesis by (simp add: poolDrained_def)
    next
      case True
      show ?thesis
      proof (cases "pools c ! i")
        case None
        with step owned Some True show ?thesis by (simp add: poolDrained_def)
      next
        case pool: (Some pool)
        with step Some True have run: "runDrainedCallbacks ndebug (drained_cbs pool) w = Inr w'"
          by (simp add: poolDrained_def)
        have mem: "Some pool \<in> set (pools c)"
          using pool True by (metis nth_mem)
        then have "set (drained_cbs pool) \<subseteq> set (registered_callbacks (pools c))"
          by (auto simp: set_registered)
        with owned Some have sub: "set (drained_cbs pool) \<subseteq> {host}"
          by (auto simp: callbacks_owned_def)
        have nd: "not_draining host w \<longrightarrow> w' = w"
        proof
          assume "not_draining host w"
          with Some have "registered_callbacks (pools c) = []"
            by (simp add: not_draining_def)
          with mem have "drained_cbs pool = []"
            by (simp add: registered_Nil_iff)
          with run show "w' = w" by simp
        qed
        from run_callbacks_effect [OF run] owned sub nd show ?thesis
          by auto
      qed
    qed
  qed
  then show "thread_local_clusters w' = thread_local_clusters w"
    and "callbacks_owned w'"
    and "x \<noteq> host \<Longrightarrow> host_http_conn_pool_map w' x = host_http_conn_pool_map w x"
    and "not_draining host w \<Longrightarrow> w' = w"
    by blast+
qed

subsubsection \<open>Runs\<close>

lemma step_invariants:
  assumes step: "worker_step ndebug ch fe ev w = Inr w'"
  shows "subscribers w' = subscribers w"
    and "callbacks_owned w \<Longrightarrow> callbacks_owned w'"
    and "callbacks_owned w \<Longrightarrow> not_draining h w \<Longrightarrow> removals h [ev] = 0 \<Longrightarrow> not_draining h w'"
proof -
  have "subscribers w' = subscribers w
      \<and> (callbacks_owned w \<longrightarrow> callbacks_owned w')
      \<and> (callbacks_owned w \<longrightarrow> not_draining h w \<longrightarrow> removals h [ev] = 0 \<longrightarrow> not_draining h w')"
  proof (cases ev)
    case (HttpConnPool name p)
    with step have ok: "fst (httpConnPoolForCluster ch fe name p w) \<noteq> Inl AssertionFailed"
      and w': "w' = snd (httpConnPoolForCluster ch fe name p w)"
      by (auto split: if_splits)
    show ?thesis
      unfolding w'
      using httpConnPool_subscribers httpConnPool_owned [OF ok] httpConnPool_not_draining [OF ok]
      by blast
  next
    case (TcpConn name)
    with step have w': "w' = snd (tcpConnForCluster ch name w)" by simp
    show ?thesis
      unfolding w'
      by (simp add: tcpConn_subscribers callbacks_owned_def not_draining_def tcpConn_map)
  next
    case (MemberUpdate u)
    with step have upd: "updateClusterMembership u w = Inr w'" by simp
    then obtain e where known: "thread_local_clusters w (upd_name u) = Some e"
      by (cases "thread_local_clusters w (upd_name u)") (simp_all add: update_unknown)
    from update_effect [OF known] upd have "subscribers w' = subscribers w" by auto
    with update_owned [OF upd] update_not_draining [OF upd, of h] MemberUpdate
    show ?thesis by simp
  next
    case (PoolDrained host i)
    with step have pd: "poolDrained ndebug host i w = Inr w'" by simp
    have s: "callbacks_owned w \<longrightarrow> subscribers w' = subscribers w"
      using poolDrained_effect(1) [OF pd] by (simp add: subscribers_def fun_eq_iff)
    have s': "subscribers w' = subscribers w"
    proof -
      have "thread_local_clusters w' = thread_local_clusters w"
      proof (cases "host_http_conn_pool_map w host")
        case None
        with pd show ?thesis by (simp add: poolDrained_def)
      next
        case (Some c)
        show ?thesis
        proof (cases "i < length (pools c)")
          case False
          with pd Some show ?thesis by (simp add: poolDrained_def)
        next
          case True
          show ?thesis
          proof (cases "pools c ! i")
            case None
            with pd Some True show ?thesis by (simp add: poolDrained_def)
          next
            case pool: (Some pool)
            with pd Some True have "runDrainedCallbacks ndebug (drained_cbs pool) w = Inr w'"
              by (simp add: poolDrained_def)
            from run_callbacks_effect [OF this] show ?thesis by simp
          qed
        qed
      qed
      then show ?thesis by (simp add: subscribers_def fun_eq_iff)
    qed
    have nd: "callbacks_owned w \<longrightarrow> not_draining h w \<longrightarrow> not_draining h w'"
    proof (intro impI)
      assume owned: "callbacks_owned w" and n: "not_draining h w"
      show "not_draining h w'"
      proof (cases "h = host")
        case True
        with poolDrained_effect(4) [OF pd owned] n show ?thesis by simp
      next
        case False
        with poolDrained_effect(3) [OF pd owned, of h] n show ?thesis
          by (simp add: not_draining_def)
      qed
    qed
    from s' nd poolDrained_effect(2) [OF pd] show ?thesis by blast
  qed
  then show "subscribers w' = subscribers w"
    and "callbacks_owned w \<Longrightarrow> callbacks_owned w'"
    and "callbacks_owned w \<Longrightarrow> not_draining h w \<Longrightarrow> removals h [ev] = 0 \<Longrightarrow> not_draining h w'"
    by blast+
qed

lemma removals_Cons:
  "removals h (ev # evs) = removals h [ev] + removals h evs"
  by (cases ev) simp_all

lemma run_invariants:
  "worker_run ndebug ch fe evs w0 = Inr w \<Longrightarrow>
     subscribers w = subscribers w0
   \<and> (callbacks_owned w0 \<longrightarrow> callbacks_owned w)
   \<and> (callbacks_owned w0 \<longrightarrow> not_draining h w0 \<longrightarrow> removals h evs = 0 \<longrightarrow> not_draining h w)"
proof (induction evs arbitrary: w0)
  case Nil
  then show ?case by simp
next
  case (Cons ev evs)
  from Cons.prems obtain w1 where
    one: "worker_step ndebug ch fe ev w0 = Inr w1" and rest: "worker_run ndebug ch fe evs w1 = Inr w"
    by (cases "worker_step ndebug ch fe ev w0") simp_all
  from Cons.IH [OF rest] step_invariants(1,2) [OF one] step_invariants(3) [OF one, of h]
    removals_Cons [of h ev evs]
  show ?case by auto
qed

subsubsection \<open>The worker as constructed\<close>

lemma create_entries_map [simp]:
  "host_http_conn_pool_map (create_entries cs l lhs w) = host_http_conn_pool_map w"
  by (induction cs arbitrary: w) auto

lemma create_entries_subscribers:
  "subscribers (create_entries cs l lhs w) n =
     (if n \<in> fst ` set cs \<and> l \<noteq> Some n then Some [] else subscribers w n)"
proof (induction cs arbitrary: w)
  case Nil
  then show ?case by simp
next
  case (Cons c cs)
  show ?case
  proof (cases "l = Some (fst c)")
    case True
    with Cons [of w] show ?thesis by auto
  next
    case False
    let ?w = "w\<lparr>thread_local_clusters := (thread_local_clusters w)
                 (fst c \<mapsto> ClusterEntry_new (snd c) lhs),
               entries_created := entries_created w @ [fst c]\<rparr>"
    have here: "subscribers ?w n = (if n = fst c then Some [] else subscribers w n)"
      by (simp add: subscribers_def ClusterEntry_new_def new_HostSet_def)
    from False have "subscribers (create_entries (c # cs) l lhs w) n
        = subscribers (create_entries cs l lhs ?w) n"
      by simp
    also have "\<dots> = (if n \<in> fst ` set cs \<and> l \<noteq> Some n then Some [] else subscribers ?w n)"
      by (rule Cons)
    finally show ?thesis
      using False here by auto
  qed
qed

lemma add_purge_subscribers:
  "subscribers (add_purge_callbacks w) n =
     map_option (\<lambda>cbs. cbs @ [PurgeConnPools]) (subscribers w n)"
  by (simp add: subscribers_def add_purge_callbacks_def split: option.split)

lemma new_worker:
  assumes built: "ThreadLocalClusterManagerImpl_new parent stats local_cluster_name = Inr w0"
  shows "subscribers w0 n =
           (if n \<in> fst ` set (primary_clusters parent) then Some [PurgeConnPools] else None)"
    and "host_http_conn_pool_map w0 = Map.empty"
proof -
  define w00 :: ThreadLocalClusterManagerImpl where
    "w00 = \<lparr>thread_local_clusters = Map.empty, host_http_conn_pool_map = Map.empty,
            deferred_delete = [], pools_allocated = 0, upstream_cx_none_healthy = stats,
            entries_created = []\<rparr>"
  have "\<exists>w1. w0 = add_purge_callbacks
                  (create_entries (primary_clusters parent) local_cluster_name local_cluster_name w1)
            \<and> host_http_conn_pool_map w1 = Map.empty
            \<and> (\<forall>n. subscribers w1 n =
                  (if local_cluster_name = Some n \<and> n \<in> fst ` set (primary_clusters parent)
                   then Some [] else None))"
  proof (cases local_cluster_name)
    case None
    with built have "w0 = add_purge_callbacks
        (create_entries (primary_clusters parent) local_cluster_name local_cluster_name w00)"
      by (simp add: ThreadLocalClusterManagerImpl_new_def w00_def)
    moreover have "host_http_conn_pool_map w00 = Map.empty" by (simp add: w00_def)
    moreover have "\<forall>n. subscribers w00 n = None" by (simp add: subscribers_def w00_def)
    ultimately show ?thesis using None by auto
  next
    case (Some name)
    show ?thesis
    proof (cases "map_of (primary_clusters parent) name")
      case None
      with built Some show ?thesis
        by (simp add: ThreadLocalClusterManagerImpl_new_def)
    next
      case lc: (Some local_cluster)
      define w1 where "w1 = w00\<lparr>thread_local_clusters := (thread_local_clusters w00)
                                  (name \<mapsto> ClusterEntry_new local_cluster None),
                                entries_created := entries_created w00 @ [name]\<rparr>"
      from built Some lc have "w0 = add_purge_callbacks
          (create_entries (primary_clusters parent) local_cluster_name local_cluster_name w1)"
        by (simp add: ThreadLocalClusterManagerImpl_new_def w00_def w1_def)
      moreover have "host_http_conn_pool_map w1 = Map.empty" by (simp add: w1_def w00_def)
      moreover from lc have "(name, local_cluster) \<in> set (primary_clusters parent)"
        by (rule map_of_SomeD)
      then have "name \<in> fst ` set (primary_clusters parent)" by force
      then have "\<forall>n. subscribers w1 n =
                  (if local_cluster_name = Some n \<and> n \<in> fst ` set (primary_clusters parent)
                   then Some [] else None)"
        using Some
        by (auto simp: subscribers_def w1_def w00_def ClusterEntry_new_def new_HostSet_def)
      ultimately show ?thesis by blast
    qed
  qed
  then obtain w1 where w0: "w0 = add_purge_callbacks
                  (create_entries (primary_clusters parent) local_cluster_name local_cluster_name w1)"
    and m1: "host_http_conn_pool_map w1 = Map.empty"
    and s1: "\<forall>n. subscribers w1 n =
                  (if local_cluster_name = Some n \<and> n \<in> fst ` set (primary_clusters parent)
                   then Some [] else None)"
    by blast
  show "subscribers w0 n =
           (if n \<in> fst ` set (primary_clusters parent) then Some [PurgeConnPools] else None)"
    unfolding w0 add_purge_subscribers create_entries_subscribers
    using s1 [THEN spec, of n] by auto
  show "host_http_conn_pool_map w0 = Map.empty"
    unfolding w0 using m1 by (simp add: add_purge_callbacks_def)
qed

text \<open>
  C1. A worker that the constructor has built has run any events without failure, none of
  them an update that removes the host \<open>h\<close> (a host that left before does not come back
  under the same identity). It holds a container \<open>c\<close> for \<open>h\<close>, and a member update of a
  primary cluster now reports \<open>h\<close> among the removed hosts, \<open>m\<close> times (once in a list
  without repetition). Then the update runs, by the callback that the constructor has
  registered with the host set; the container has at least one pool, \<open>drains_remaining\<close> is
  \<open>m\<close> times the number of non-empty pool slots, every non-empty pool holds \<open>m\<close> drained
  callbacks for \<open>h\<close> and nothing is queued for deletion yet. When the pools then report
  drained, slot after slot, every report takes \<open>m\<close> from \<open>drains_remaining\<close> and leaves the
  container in the map with its pools and the queue as it was, until the last non-empty
  pool has reported: then every pool of the container is at the end of the deferred
  deletion queue and the map has no container for \<open>h\<close>; reports from the empty slots
  behind it change nothing.
\<close>

theorem drain_removed_host:
  fixes c :: ConnPoolsContainer
  assumes built: "ThreadLocalClusterManagerImpl_new parent stats local_cluster_name = Inr w0"
      and history: "worker_run ndebug ch fe evs w0 = Inr w"
      and first: "removals h evs = 0"
      and known: "upd_name u \<in> fst ` set (primary_clusters parent)"
      and present: "host_http_conn_pool_map w h = Some c"
      and removed: "h \<in> set (upd_hosts_removed u)"
  shows "\<exists>w1 c1.
        updateClusterMembership u w = Inr w1
      \<and> host_http_conn_pool_map w1 h = Some c1
      \<and> 0 < length (filter (\<lambda>p. p \<noteq> None) (pools c))
      \<and> drains_remaining c1 =
          count_list (upd_hosts_removed u) h * length (filter (\<lambda>p. p \<noteq> None) (pools c))
      \<and> pools c1 =
          map (map_option (\<lambda>p. p\<lparr>drained_cbs := replicate (count_list (upd_hosts_removed u) h) h\<rparr>))
            (pools c)
      \<and> deferred_delete w1 = deferred_delete w
      \<and> (\<forall>j \<le> length (pools c1).
           \<exists>wj. worker_run ndebug ch fe (map (PoolDrained h) [0..<j]) w1 = Inr wj
             \<and> (if length (filter (\<lambda>p. p \<noteq> None) (take j (pools c1)))
                     < length (filter (\<lambda>p. p \<noteq> None) (pools c1))
                then host_http_conn_pool_map wj h =
                       Some (c1\<lparr>drains_remaining :=
                               count_list (upd_hosts_removed u) h
                               * (length (filter (\<lambda>p. p \<noteq> None) (pools c1))
                                  - length (filter (\<lambda>p. p \<noteq> None) (take j (pools c1))))\<rparr>)
                   \<and> deferred_delete wj = deferred_delete w
                else host_http_conn_pool_map wj h = None
                   \<and> deferred_delete wj = deferred_delete w @ pools c1))"
proof -
  define m where "m = count_list (upd_hosts_removed u) h"
  define n where "n = length (filter (\<lambda>p. p \<noteq> None) (pools c))"
  from removed have m: "0 < m"
    unfolding m_def using count_list_0_iff [of "upd_hosts_removed u" h] by auto
  \<comment> \<open>what holds of every state that a run reaches\<close>
  have owned0: "callbacks_owned w0"
    using new_worker(2) [OF built] by (simp add: callbacks_owned_def)
  have nd0: "not_draining h w0"
    using new_worker(2) [OF built] by (simp add: not_draining_def)
  note inv = run_invariants [OF history, of h]
  from inv new_worker(1) [OF built, of "upd_name u"] known
  have "subscribers w (upd_name u) = Some [PurgeConnPools]"
    by simp
  then obtain e where e: "thread_local_clusters w (upd_name u) = Some e"
    and cbs: "hs_callbacks (host_set e) = [PurgeConnPools]"
    by (auto simp: subscribers_def)
  from inv owned0 nd0 first have nd: "not_draining h w" by blast
  with present have zero: "drains_remaining c = 0"
    and none: "registered_callbacks (pools c) = []"
    and some: "\<exists>pool. Some pool \<in> set (pools c)"
    by (simp_all add: not_draining_def)
  from some have n: "0 < n"
    unfolding n_def by (auto simp: filter_empty_conv)
  \<comment> \<open>the update\<close>
  from update_effect [OF e] obtain w1 where
    run: "updateClusterMembership u w = Inr w1"
    and dd: "deferred_delete w1 = deferred_delete w"
    and map1: "\<forall>h. host_http_conn_pool_map w1 h =
               map_option (drainConnPools h ^^
                   (length (hs_callbacks (host_set e)) * count_list (upd_hosts_removed u) h))
                 (host_http_conn_pool_map w h)"
    by blast
  define c1 where "c1 = (drainConnPools h ^^ m) c"
  from map1 [THEN spec, of h] present cbs have at1: "host_http_conn_pool_map w1 h = Some c1"
    by (simp add: c1_def m_def)
  note it = drain_iterated [where h = h and m = m and c = c]
  have "map (map_option (\<lambda>p. p\<lparr>drained_cbs := drained_cbs p @ replicate m h\<rparr>)) (pools c)
      = map (map_option (\<lambda>p. p\<lparr>drained_cbs := replicate m h\<rparr>)) (pools c)"
  proof (rule map_cong [OF refl])
    fix p assume p: "p \<in> set (pools c)"
    show "map_option (\<lambda>p. p\<lparr>drained_cbs := drained_cbs p @ replicate m h\<rparr>) p
        = map_option (\<lambda>p. p\<lparr>drained_cbs := replicate m h\<rparr>) p"
    proof (cases p)
      case None
      then show ?thesis by simp
    next
      case (Some pool)
      with p none have "drained_cbs pool = []"
        by (simp add: registered_Nil_iff)
      with Some show ?thesis by simp
    qed
  qed
  with it have pools1: "pools c1 = map (map_option (\<lambda>p. p\<lparr>drained_cbs := replicate m h\<rparr>)) (pools c)"
    by (simp add: c1_def)
  from it zero have cnt1: "drains_remaining c1 = m * n"
    by (simp add: c1_def n_def)
  have n1: "length (filter (\<lambda>p. p \<noteq> None) (pools c1)) = n"
    unfolding pools1 n_def by (rule nonempty_map_option)
  \<comment> \<open>the reports\<close>
  have cbs1: "\<forall>p. Some p \<in> set (pools c1) \<longrightarrow> drained_cbs p = replicate m h"
  proof (intro allI impI)
    fix p assume "Some p \<in> set (pools c1)"
    then obtain x where "Some p = map_option (\<lambda>p. p\<lparr>drained_cbs := replicate m h\<rparr>) x"
      unfolding pools1 set_map image_iff by blast
    then show "drained_cbs p = replicate m h"
      by (cases x) simp_all
  qed
  have cnt1': "drains_remaining c1 = m * length (filter (\<lambda>p. p \<noteq> None) (pools c1))"
    using cnt1 n1 by simp
  have n1': "0 < length (filter (\<lambda>p. p \<noteq> None) (pools c1))"
    using n n1 by simp
  have reports: "\<forall>j \<le> length (pools c1).
           \<exists>wj. worker_run ndebug ch fe (map (PoolDrained h) [0..<j]) w1 = Inr wj
             \<and> (if length (filter (\<lambda>p. p \<noteq> None) (take j (pools c1)))
                     < length (filter (\<lambda>p. p \<noteq> None) (pools c1))
                then host_http_conn_pool_map wj h =
                       Some (c1\<lparr>drains_remaining :=
                               m * (length (filter (\<lambda>p. p \<noteq> None) (pools c1))
                                  - length (filter (\<lambda>p. p \<noteq> None) (take j (pools c1))))\<rparr>)
                   \<and> deferred_delete wj = deferred_delete w1
                else host_http_conn_pool_map wj h = None
                   \<and> deferred_delete wj = deferred_delete w1 @ pools c1)"
    by (intro allI impI) (rule reports_prefix [OF at1 cbs1 cnt1' m n1'])
  note reports' = reports [unfolded dd]
  have all: "updateClusterMembership u w = Inr w1
      \<and> host_http_conn_pool_map w1 h = Some c1
      \<and> 0 < n
      \<and> drains_remaining c1 = m * n
      \<and> pools c1 = map (map_option (\<lambda>p. p\<lparr>drained_cbs := replicate m h\<rparr>)) (pools c)
      \<and> deferred_delete w1 = deferred_delete w
      \<and> (\<forall>j \<le> length (pools c1).
           \<exists>wj. worker_run ndebug ch fe (map (PoolDrained h) [0..<j]) w1 = Inr wj
             \<and> (if length (filter (\<lambda>p. p \<noteq> None) (take j (pools c1)))
                     < length (filter (\<lambda>p. p \<noteq> None) (pools c1))
                then host_http_conn_pool_map wj h =
                       Some (c1\<lparr>drains_remaining :=
                               m * (length (filter (\<lambda>p. p \<noteq> None) (pools c1))
                                  - length (filter (\<lambda>p. p \<noteq> None) (take j (pools c1))))\<rparr>)
                   \<and> deferred_delete wj = deferred_delete w
                else host_http_conn_pool_map wj h = None
                   \<and> deferred_delete wj = deferred_delete w @ pools c1))"
    by (intro conjI) (rule run at1 n cnt1 pools1 dd reports')+
  show ?thesis
    unfolding m_def [symmetric] n_def [symmetric]
    by (rule exI [where x = w1], rule exI [where x = c1], rule all)
qed

theorem drain_removed_host_witness:
  "ThreadLocalClusterManagerImpl_new scenario_cm (\<lambda>name. 0) None = Inr scenario_fresh_worker
 \<and> worker_run False (lb_chooseHost no_host) all_enabled
       [MemberUpdate scenario_update, HttpConnPool ''c'' Default] scenario_fresh_worker
     = Inr scenario_served_worker
 \<and> removals scenario_host1 [MemberUpdate scenario_update, HttpConnPool ''c'' Default] = 0
 \<and> upd_name scenario_removal \<in> fst ` set (primary_clusters scenario_cm)
 \<and> host_http_conn_pool_map scenario_served_worker scenario_host1 = Some scenario_container
 \<and> scenario_host1 \<in> set (upd_hosts_removed scenario_removal)
 \<and> (\<exists>w1 w2.
        updateClusterMembership scenario_removal scenario_served_worker = Inr w1
      \<and> host_http_conn_pool_map w1 scenario_host1 =
          Some \<lparr>pools = [Some (scenario_pool\<lparr>drained_cbs := [scenario_host1]\<rparr>), None],
                drains_remaining = 1\<rparr>
      \<and> deferred_delete w1 = []
      \<and> worker_run False (lb_chooseHost no_host) all_enabled
            [PoolDrained scenario_host1 0, PoolDrained scenario_host1 1] w1 = Inr w2
      \<and> host_http_conn_pool_map w2 scenario_host1 = None
      \<and> deferred_delete w2 = [Some (scenario_pool\<lparr>drained_cbs := [scenario_host1]\<rparr>), None])"
proof -
  have built: "ThreadLocalClusterManagerImpl_new scenario_cm (\<lambda>name. 0) None = Inr scenario_fresh_worker"
    using scenario_loaded [THEN conjunct2, THEN conjunct1] by (simp add: scenario_cm_def)
  note update = scenario_loaded [THEN conjunct2, THEN conjunct2]
  note request = scenario_served
  have history: "worker_run False (lb_chooseHost no_host) all_enabled
       [MemberUpdate scenario_update, HttpConnPool ''c'' Default] scenario_fresh_worker
     = Inr scenario_served_worker"
    by (simp add: update request)
  have first: "removals scenario_host1 [MemberUpdate scenario_update, HttpConnPool ''c'' Default] = 0"
    by (simp add: scenario_update_def)
  have known: "upd_name scenario_removal \<in> fst ` set (primary_clusters scenario_cm)"
    by (simp add: scenario_removal_def scenario_cm_def)
  have present: "host_http_conn_pool_map scenario_served_worker scenario_host1 = Some scenario_container"
    by (simp add: scenario_served_worker_def scenario_busy_worker_def)
  have removed: "scenario_host1 \<in> set (upd_hosts_removed scenario_removal)"
    by (simp add: scenario_removal_def)
  have once: "count_list (upd_hosts_removed scenario_removal) scenario_host1 = 1"
    by (simp add: scenario_removal_def)
  have dd: "deferred_delete scenario_served_worker = []"
    by (simp add: scenario_served_worker_def scenario_busy_worker_def scenario_worker_def)
  from drain_removed_host [OF built history first known present removed]
  obtain w1 and c1 :: ConnPoolsContainer where
    run: "updateClusterMembership scenario_removal scenario_served_worker = Inr w1"
    and at1: "host_http_conn_pool_map w1 scenario_host1 = Some c1"
    and cnt: "drains_remaining c1 =
          count_list (upd_hosts_removed scenario_removal) scenario_host1
          * length (filter (\<lambda>p. p \<noteq> None) (pools scenario_container))"
    and ps: "pools c1 =
          map (map_option (\<lambda>p. p\<lparr>drained_cbs :=
                 replicate (count_list (upd_hosts_removed scenario_removal) scenario_host1)
                   scenario_host1\<rparr>))
            (pools scenario_container)"
    and dd1: "deferred_delete w1 = deferred_delete scenario_served_worker"
    and reports: "\<forall>j \<le> length (pools c1).
           \<exists>wj. worker_run False (lb_chooseHost no_host) all_enabled
                  (map (PoolDrained scenario_host1) [0..<j]) w1 = Inr wj
             \<and> (if length (filter (\<lambda>p. p \<noteq> None) (take j (pools c1)))
                     < length (filter (\<lambda>p. p \<noteq> None) (pools c1))
                then host_http_conn_pool_map wj scenario_host1 =
                       Some (c1\<lparr>drains_remaining :=
                               count_list (upd_hosts_removed scenario_removal) scenario_host1
                               * (length (filter (\<lambda>p. p \<noteq> None) (pools c1))
                                  - length (filter (\<lambda>p. p \<noteq> None) (take j (pools c1))))\<rparr>)
                   \<and> deferred_delete wj = deferred_delete scenario_served_worker
                else host_http_conn_pool_map wj scenario_host1 = None
                   \<and> deferred_delete wj = deferred_delete scenario_served_worker @ pools c1)"
    by (elim exE conjE) (erule that, assumption+)
  have ps1: "pools c1 = [Some (scenario_pool\<lparr>drained_cbs := [scenario_host1]\<rparr>), None]"
    unfolding ps once by (simp add: scenario_container_def)
  have cnt1: "drains_remaining c1 = 1"
    unfolding cnt once by (simp add: scenario_container_def)
  have c1: "c1 = \<lparr>pools = [Some (scenario_pool\<lparr>drained_cbs := [scenario_host1]\<rparr>), None],
                drains_remaining = 1\<rparr>"
    using ps1 cnt1 by (cases c1) simp
  have two: "map (PoolDrained scenario_host1) [0..<2]
      = [PoolDrained scenario_host1 0, PoolDrained scenario_host1 1]"
    by (simp add: upt_rec numeral_2_eq_2)
  from reports [THEN spec, of 2] obtain w2 where
    "worker_run False (lb_chooseHost no_host) all_enabled
            [PoolDrained scenario_host1 0, PoolDrained scenario_host1 1] w1 = Inr w2"
    "host_http_conn_pool_map w2 scenario_host1 = None"
    "deferred_delete w2 = [Some (scenario_pool\<lparr>drained_cbs := [scenario_host1]\<rparr>), None]"
    unfolding two ps1 dd by auto
  with built history first known present removed run at1 [unfolded c1] dd1 [unfolded dd]
  show ?thesis by blast
qed

end
